theory Spec2Isabelle
  imports Complex_Main "HOL-Library.AList" "HOL-Library.Sublist" "HOL-Library.Word"
begin

section \<open>Serial Studio: the JSON frame generator (src/JSON/Generator.cpp)\<close>

text \<open>
  The generator receives raw frames from the I/O manager, turns each of them into a JSON
  document (either the frame is the document, or its fields are inserted into a JSON map
  file), and hands the document to the rest of the application together with a frame
  number and a time stamp.

  Strings are byte lists. The source converts between \<^verbatim>\<open>QByteArray\<close>, \<^verbatim>\<open>QString\<close> and
  \<^verbatim>\<open>std::string\<close> through UTF-8; on well-formed UTF-8 these conversions are the identity on
  the bytes, and the model works on the bytes.
\<close>

subsection \<open>std::string: find and replace\<close>

text \<open>
  \<^verbatim>\<open>s.find(str, 0)\<close>: the lowest position at which \<open>str\<close> occurs in \<open>s\<close>, or npos
  (\<open>None\<close>).
\<close>

fun find0 :: "string \<Rightarrow> string \<Rightarrow> nat option" where
  "find0 [] str = (if str = [] then Some 0 else None)"
| "find0 (c # cs) str =
     (if prefix str (c # cs) then Some 0 else map_option Suc (find0 cs str))"

text \<open>
  \<^verbatim>\<open>s.find(str, pos)\<close>: the lowest position not below \<open>pos\<close> at which \<open>str\<close> occurs;
  npos when \<open>pos\<close> is beyond the end.
\<close>

definition std_find :: "string \<Rightarrow> string \<Rightarrow> nat \<Rightarrow> nat option" where
  "std_find s str pos =
     (if length s < pos then None
      else map_option (\<lambda>i. pos + i) (find0 (drop pos s) str))"

text \<open>
  \<^verbatim>\<open>s.replace(pos, len, str)\<close>: the \<open>len\<close> characters from \<open>pos\<close> on (fewer when the
  string ends before) are replaced by \<open>str\<close>. The source calls it only with a position
  returned by \<^verbatim>\<open>find\<close>, so its \<^verbatim>\<open>out_of_range\<close> exception (\<open>pos\<close> beyond the end) is
  never raised.
\<close>

definition std_replace :: "string \<Rightarrow> nat \<Rightarrow> nat \<Rightarrow> string \<Rightarrow> string" where
  "std_replace s pos len str = take pos s @ str @ drop (pos + len) s"

text \<open>\<^verbatim>\<open>std::to_string\<close> of a positive number: its decimal digits.\<close>

fun to_string :: "nat \<Rightarrow> string" where
  "to_string n =
     (if n < 10 then [''0123456789'' ! n]
      else to_string (n div 10) @ [''0123456789'' ! (n mod 10)])"

subsection \<open>QString::split\<close>

text \<open>
  \<open>split_from sep field rest\<close> reads \<open>rest\<close> with \<open>field\<close> the part of the current field
  read so far. Empty fields are kept (Qt's default).
\<close>

fun split_from :: "string \<Rightarrow> string \<Rightarrow> string \<Rightarrow> string list" where
  "split_from sep field [] = [field]"
| "split_from sep field (c # cs) =
     (if sep \<noteq> [] \<and> prefix sep (c # cs)
      then field # split_from sep [] (drop (length sep - 1) cs)
      else split_from sep (field @ [c]) cs)"

text \<open>
  With an empty separator Qt returns an empty string, then every character, then another
  empty string.
\<close>

definition split :: "string \<Rightarrow> string \<Rightarrow> string list" where
  "split s sep =
     (if sep = [] then [] # map (\<lambda>c. [c]) s @ [[]] else split_from sep [] s)"

subsection \<open>Inserting the frame's fields into the JSON map\<close>

text \<open>
  The inner loop of \<^verbatim>\<open>Generator::processFrame\<close> and \<^verbatim>\<open>JSONWorker::process\<close>:
  \<^verbatim>\<open>
  while ((start_pos = json.find(id, start_pos)) != std::string::npos)
  {
      json.replace(start_pos, id.length(), value);
      start_pos += value.length();
  }
  \<close>
  The marker \<open>ident\<close> (\<^verbatim>\<open>id\<close> in the source) is \<^verbatim>\<open>"%"\<close> followed by digits, never empty.
  With an empty marker the source's loop would not end; the model stops there at once,
  and every statement below about the loop is for a marker that is not empty.
\<close>

lemma find0_bound: "find0 s str = Some i \<Longrightarrow> i + length str \<le> length s"
proof (induction s arbitrary: i)
  case Nil
  then show ?case by (simp split: if_splits)
next
  case (Cons c cs)
  show ?case
  proof (cases "prefix str (c # cs)")
    case True
    with Cons.prems prefix_length_le [of str "c # cs"] show ?thesis by simp
  next
    case False
    with Cons.prems obtain j where "find0 cs str = Some j" and "i = Suc j"
      by auto
    with Cons.IH [of j] show ?thesis by simp
  qed
qed

lemma std_find_bounds:
  assumes "std_find s str pos = Some p"
  shows "pos \<le> p" and "p + length str \<le> length s"
proof -
  from assms obtain i where le: "pos \<le> length s" and i: "find0 (drop pos s) str = Some i"
    and p: "p = pos + i"
    by (auto simp: std_find_def split: if_splits)
  show "pos \<le> p" using p by simp
  from find0_bound [OF i] le p show "p + length str \<le> length s" by simp
qed

function replace_loop :: "string \<Rightarrow> string \<Rightarrow> string \<Rightarrow> nat \<Rightarrow> string" where
  "replace_loop json ident val start_pos =
     (if ident = [] then json
      else case std_find json ident start_pos of
             None \<Rightarrow> json
           | Some p \<Rightarrow>
               replace_loop (std_replace json p (length ident) val) ident val
                 (p + length val))"
  by pat_completeness auto
termination
proof (relation "measure (\<lambda>(json, ident, val, start_pos). length json - start_pos)")
  show "wf (measure (\<lambda>(json, ident, val, start_pos). length json - start_pos))"
    by simp
next
  fix json ident val :: string and start_pos p :: nat
  assume ne: "ident \<noteq> []" and f: "std_find json ident start_pos = Some p"
  from std_find_bounds [OF f] ne
  have "start_pos \<le> p" and "p + length ident \<le> length json" and "0 < length ident"
    by simp_all
  then have "length json - (length ident + p) < length json - start_pos"
    by arith
  then show "((std_replace json p (length ident) val, ident, val, p + length val),
              (json, ident, val, start_pos))
             \<in> measure (\<lambda>(json, ident, val, start_pos). length json - start_pos)"
    using \<open>p + length ident \<le> length json\<close> by (simp add: std_replace_def)
qed

declare replace_loop.simps [simp del]

text \<open>
  The outer loop: one pass per field, field \<open>i\<close> (counted from 0) for the marker
  \<^verbatim>\<open>"%" + std::to_string(i + 1)\<close>, every pass from position 0 of the current text.
  (\<^verbatim>\<open>i\<close> is an \<^verbatim>\<open>int\<close> bounded by the list's \<^verbatim>\<open>count()\<close>, itself an \<^verbatim>\<open>int\<close>: \<^verbatim>\<open>i + 1\<close> only
  overflows for a list of \<open>2\<^sup>3\<^sup>1 - 1\<close> fields, which is left out.)
\<close>

function fields_loop :: "string \<Rightarrow> string list \<Rightarrow> nat \<Rightarrow> string" where
  "fields_loop json list i =
     (if i < length list
      then fields_loop (replace_loop json (''%'' @ to_string (i + 1)) (list ! i) 0) list (i + 1)
      else json)"
  by pat_completeness auto
termination
  by (relation "measure (\<lambda>(json, list, i). length list - i)") auto

declare fields_loop.simps [simp del]

text \<open>
  The text that is parsed: the JSON map with the fields of the frame inserted.
  \<^verbatim>\<open>
  auto json = jsonMapData().toStdString();
  auto sepr = IO::Manager::getInstance()->separatorSequence();
  auto list = QString::fromUtf8(data).split(sepr);
  for (int i = 0; i < list.count(); ++i) ...
  \<close>
\<close>

definition insert_fields :: "string \<Rightarrow> string \<Rightarrow> string \<Rightarrow> string" where
  "insert_fields jsonMapData sepr data = fields_loop jsonMapData (split data sepr) 0"

subsection \<open>Qt's JSON values\<close>

text \<open>
  \<^verbatim>\<open>QJsonValue\<close>, with its seven types. An object is a list of key/value pairs read as a
  map: Qt keeps the keys of an object sorted, so the place of a key in the list has no
  meaning.
\<close>

datatype QJsonValue =
    JNull
  | JBool bool
  | JDouble real
  | JString string
  | JArray "QJsonValue list"
  | JObject "(string \<times> QJsonValue) list"
  | JUndefined

type_synonym QJsonArray = "QJsonValue list"

type_synonym QJsonObject = "(string \<times> QJsonValue) list"

text \<open>\<^verbatim>\<open>QJsonDocument\<close>: null, or an array, or an object.\<close>

datatype QJsonDocument =
    NullDocument
  | ArrayDocument QJsonArray
  | ObjectDocument QJsonObject

datatype QJsonParseError = NoError | ParseError

text \<open>\<^verbatim>\<open>QJsonDocument::object()\<close>: the empty object when the document is not an object.\<close>

fun object :: "QJsonDocument \<Rightarrow> QJsonObject" where
  "object (ObjectDocument obj) = obj"
| "object _ = []"

text \<open>\<^verbatim>\<open>QJsonObject::value(key)\<close>: undefined when the key is absent.\<close>

definition obj_value :: "QJsonObject \<Rightarrow> string \<Rightarrow> QJsonValue" where
  "obj_value obj key = (case map_of obj key of Some v \<Rightarrow> v | None \<Rightarrow> JUndefined)"

definition obj_remove :: "QJsonObject \<Rightarrow> string \<Rightarrow> QJsonObject" where
  "obj_remove obj key = AList.delete key obj"

definition obj_insert :: "QJsonObject \<Rightarrow> string \<Rightarrow> QJsonValue \<Rightarrow> QJsonObject" where
  "obj_insert obj key v = AList.update key v obj"

text \<open>
  \<^verbatim>\<open>toArray()\<close>, \<^verbatim>\<open>toObject()\<close>, \<^verbatim>\<open>toString()\<close>: empty when the value has another type.
\<close>

fun toArray :: "QJsonValue \<Rightarrow> QJsonArray" where
  "toArray (JArray xs) = xs"
| "toArray _ = []"

fun toObject :: "QJsonValue \<Rightarrow> QJsonObject" where
  "toObject (JObject obj) = obj"
| "toObject _ = []"

fun toString :: "QJsonValue \<Rightarrow> string" where
  "toString (JString s) = s"
| "toString _ = []"

subsection \<open>The parts of Qt the generator calls\<close>

text \<open>
  The result of \<^verbatim>\<open>QJSEngine::evaluate\<close>, as far as the generator reads it: \<^verbatim>\<open>isError()\<close>
  and \<^verbatim>\<open>toString()\<close>.
\<close>

datatype QJSValue = QJSValue (isError: bool) (js_toString: string)

text \<open>
  The JSON parser and the JavaScript engine are Qt's, not this program's: the model takes
  them as parameters. \<open>'e\<close> is the state of a \<^verbatim>\<open>QJSEngine\<close> object; \<^verbatim>\<open>evaluate\<close> is not a
  \<^verbatim>\<open>const\<close> member, so it returns the engine's next state with its result.
\<close>

record 'e qt =
  fromJson :: "string \<Rightarrow> QJsonDocument \<times> QJsonParseError"
  evaluate :: "'e \<Rightarrow> string \<Rightarrow> QJSValue \<times> 'e"
  newEngine :: "'e"

subsection \<open>The other modules, as the generator sees them\<close>

datatype MQTTClientMode = ClientPublisher | ClientSubscriber

record MQTT_Client =
  isConnectedToHost :: bool
  topic :: string
  clientMode :: MQTTClientMode

text \<open>\<^verbatim>\<open>MQTT::Client::isSubscribed\<close>.\<close>

definition isSubscribed :: "MQTT_Client \<Rightarrow> bool" where
  "isSubscribed c \<longleftrightarrow> isConnectedToHost c \<and> topic c \<noteq> [] \<and> clientMode c = ClientSubscriber"

text \<open>
  What the generator reads from the other singletons and from the system when one of its
  functions runs: \<^verbatim>\<open>CSV::Player::isOpen()\<close>, \<^verbatim>\<open>IO::Manager::connected()\<close> and
  \<^verbatim>\<open>separatorSequence()\<close>, the MQTT client, \<^verbatim>\<open>QDateTime::currentDateTime()\<close>, and the files
  that can be opened for reading, with their content.
\<close>

record env =
  csvOpen :: bool
  connected :: bool
  mqtt :: MQTT_Client
  separatorSequence :: string
  currentDateTime :: nat
  files :: "string \<Rightarrow> string option"

subsection \<open>Frame information (JFI)\<close>

record JFI_Object =
  frameNumber :: "64 word"
  rxDateTime :: nat
  jsonDocument :: QJsonDocument

text \<open>
  Modelled from the spec: \<^verbatim>\<open>JFI_CreateNew\<close> is declared in FrameInfo.h, which is not among
  the sources. The spec's envelope is a sequence number, a capture time stamp and the
  structured document.
\<close>

definition JFI_CreateNew :: "64 word \<Rightarrow> nat \<Rightarrow> QJsonDocument \<Rightarrow> JFI_Object" where
  "JFI_CreateNew n t d = \<lparr>frameNumber = n, rxDateTime = t, jsonDocument = d\<rparr>"

text \<open>
  Modelled from the spec: \<^verbatim>\<open>JFI_Empty\<close> is declared in FrameInfo.h, which is not among the
  sources. The spec's distinguished empty envelope has sequence 0 and no document
  content; the spec does not say which time stamp it carries, so that is an argument.
\<close>

definition JFI_Empty :: "nat \<Rightarrow> JFI_Object" where
  "JFI_Empty t = \<lparr>frameNumber = 0, rxDateTime = t, jsonDocument = NullDocument\<rparr>"

subsection \<open>The generator\<close>

datatype OperationMode = kManual | kAutomatic

record QFile =
  isOpen :: bool
  fileName :: string

text \<open>
  The members of \<^verbatim>\<open>JSON::Generator\<close>. \<open>m_settings\<close> is the value stored under
  \<^verbatim>\<open>"json_map_location"\<close>. The frame counter is a \<^verbatim>\<open>quint64\<close>.
\<close>

record 'e Generator =
  m_frameCount :: "64 word"
  m_opMode :: OperationMode
  m_processInSeparateThread :: bool
  m_jsonMapData :: string
  m_jsonMap :: QFile
  m_settings :: string
  m_engine :: 'e

text \<open>The signals a function emits, in the order it emits them.\<close>

datatype signal =
    jsonChanged JFI_Object
  | jsonFileMapChanged
  | operationModeChanged
  | processFramesInSeparateThreadChanged
  | showMessageBox string

subsection \<open>Evaluating the datasets of a document\<close>

text \<open>
  The loop over the datasets of one group:
  \<^verbatim>\<open>
  for (int j = 0; j < datasets.count(); ++j)
  {
      auto dataset = datasets.at(j).toObject();
      auto value = dataset.value("v").toString();
      auto jsValue = m_engine.evaluate(value);
      if (!jsValue.isError())
      {
          dataset.remove("v");
          dataset.insert("v", jsValue.toString());
          datasets.replace(j, dataset);
      }
  }
  \<close>
  \<open>ev\<close> is the engine's \<^verbatim>\<open>evaluate\<close>, \<open>e\<close> the engine's state.
\<close>

function datasets_loop ::
  "('e \<Rightarrow> string \<Rightarrow> QJSValue \<times> 'e) \<Rightarrow> 'e \<Rightarrow> QJsonArray \<Rightarrow> nat \<Rightarrow> QJsonArray \<times> 'e" where
  "datasets_loop ev e datasets j =
     (if j < length datasets then
        (let dataset = toObject (datasets ! j);
             val = toString (obj_value dataset ''v'');
             r = ev e val
         in if \<not> isError (fst r)
            then datasets_loop ev (snd r)
                   (datasets[j := JObject (obj_insert (obj_remove dataset ''v'') ''v''
                                            (JString (js_toString (fst r))))])
                   (j + 1)
            else datasets_loop ev (snd r) datasets (j + 1))
      else (datasets, e))"
  by pat_completeness auto
termination
  by (relation "measure (\<lambda>(ev, e, datasets, j). length datasets - j)") auto

declare datasets_loop.simps [simp del]

text \<open>
  The loop over the groups:
  \<^verbatim>\<open>
  for (int i = 0; i < groups.count(); ++i)
  {
      auto group = groups.at(i).toObject();
      auto datasets = group.value("d").toArray();
      for (...) ...
      group.remove("d");
      group.insert("d", datasets);
      groups.replace(i, group);
  }
  \<close>
\<close>

function groups_loop ::
  "('e \<Rightarrow> string \<Rightarrow> QJSValue \<times> 'e) \<Rightarrow> 'e \<Rightarrow> QJsonArray \<Rightarrow> nat \<Rightarrow> QJsonArray \<times> 'e" where
  "groups_loop ev e groups i =
     (if i < length groups then
        (let group = toObject (groups ! i);
             datasets = toArray (obj_value group ''d'');
             r = datasets_loop ev e datasets 0
         in groups_loop ev (snd r)
              (groups[i := JObject (obj_insert (obj_remove group ''d'') ''d'' (JArray (fst r)))])
              (i + 1))
      else (groups, e))"
  by pat_completeness auto
termination
  by (relation "measure (\<lambda>(ev, e, groups, i). length groups - i)") auto

declare groups_loop.simps [simp del]

text \<open>
  From the parsed document to the document that is sent:
  \<^verbatim>\<open>
  auto root = jsonDocument.object();
  auto groups = root.value("g").toArray();
  for (...) ...
  root.remove("g");
  root.insert("g", groups);
  document = QJsonDocument(root);
  \<close>
  The same lines stand in \<^verbatim>\<open>Generator::processFrame\<close> and in \<^verbatim>\<open>JSONWorker::process\<close>.
\<close>

definition evaluate_document ::
  "('e \<Rightarrow> string \<Rightarrow> QJSValue \<times> 'e) \<Rightarrow> 'e \<Rightarrow> QJsonDocument \<Rightarrow> QJsonDocument \<times> 'e" where
  "evaluate_document ev e jsonDoc =
     (let root = object jsonDoc;
          groups = toArray (obj_value root ''g'');
          r = groups_loop ev e groups 0
      in (ObjectDocument (obj_insert (obj_remove root ''g'') ''g'' (JArray (fst r))), snd r))"

subsection \<open>Generator::processFrame\<close>

text \<open>
  The frame is processed in the caller's thread, with the generator's own engine
  \<open>m_engine\<close>; the document is sent with \<^verbatim>\<open>emit jsonChanged(...)\<close> at once.
\<close>

definition processFrame ::
  "'e qt \<Rightarrow> 'e Generator \<Rightarrow> env \<Rightarrow> string \<Rightarrow> 64 word \<Rightarrow> nat \<Rightarrow> 'e Generator \<times> signal list" where
  "processFrame lib g env data frame time =
     (if m_opMode g = kAutomatic then
        (let (document, error) = fromJson lib data
         in (g, if error = NoError then [jsonChanged (JFI_CreateNew frame time document)]
                else []))
      else if m_jsonMapData g = [] then (g, [])
      else
        (let json = insert_fields (m_jsonMapData g) (separatorSequence env) data;
             (jsonDoc, error) = fromJson lib json;
             (document, e') = evaluate_document (evaluate lib) (m_engine g) jsonDoc
         in (g\<lparr>m_engine := e'\<rparr>,
             if error = NoError then [jsonChanged (JFI_CreateNew frame time document)]
             else [])))"

subsection \<open>JSONWorker\<close>

text \<open>What the constructor stores: the frame, its number and the time it was received.\<close>

record JSONWorker =
  m_time :: nat
  m_data :: string
  m_frame :: "64 word"

text \<open>
  \<^verbatim>\<open>JSONWorker::process\<close> runs when the worker's thread has started. It reads the operation
  mode and the JSON map from the generator singleton \<open>g\<close>, and the separator from the
  I/O manager, as they are when it runs, and creates an engine of its own. The result is
  the argument of its \<^verbatim>\<open>jsonReady\<close> signal, if it emits one.
\<close>

definition JSONWorker_process ::
  "'e qt \<Rightarrow> JSONWorker \<Rightarrow> 'e Generator \<Rightarrow> env \<Rightarrow> JFI_Object option" where
  "JSONWorker_process lib w generator env =
     (if m_opMode generator = kAutomatic then
        (let (document, error) = fromJson lib (m_data w)
         in if error = NoError then Some (JFI_CreateNew (m_frame w) (m_time w) document)
            else None)
      else if m_jsonMapData generator = [] then None
      else
        (let json = insert_fields (m_jsonMapData generator) (separatorSequence env) (m_data w);
             (jsonDoc, error) = fromJson lib json;
             (document, e') = evaluate_document (evaluate lib) (newEngine lib) jsonDoc
         in if error = NoError then Some (JFI_CreateNew (m_frame w) (m_time w) document)
            else None))"

subsection \<open>The generator's slots\<close>

text \<open>\<^verbatim>\<open>Generator::reset\<close>.\<close>

definition reset :: "'e Generator \<Rightarrow> env \<Rightarrow> 'e Generator \<times> signal list" where
  "reset g env = (g\<lparr>m_frameCount := 0\<rparr>, [jsonChanged (JFI_Empty (currentDateTime env))])"

text \<open>\<^verbatim>\<open>Generator::loadJFI\<close>: the slot connected to the workers' \<^verbatim>\<open>jsonReady\<close>.\<close>

definition loadJFI :: "'e Generator \<Rightarrow> env \<Rightarrow> JFI_Object \<Rightarrow> 'e Generator \<times> signal list" where
  "loadJFI g env info =
     (let csvOpen = csvOpen env;
          devOpen = connected env;
          mqttSub = isSubscribed (mqtt env)
      in if csvOpen \<or> devOpen \<or> mqttSub then (g, [jsonChanged info]) else reset g env)"

text \<open>\<^verbatim>\<open>Generator::loadJSON\<close>.\<close>

definition loadJSON :: "'e Generator \<Rightarrow> env \<Rightarrow> QJsonDocument \<Rightarrow> 'e Generator \<times> signal list" where
  "loadJSON g env json =
     (let g' = g\<lparr>m_frameCount := m_frameCount g + 1\<rparr>;
          jfi = JFI_CreateNew (m_frameCount g') (currentDateTime env) json
      in loadJFI g' env jfi)"

text \<open>
  \<^verbatim>\<open>Generator::readData\<close>. The third component is the worker that was created and whose
  thread was started, if any.
\<close>

definition readData ::
  "'e qt \<Rightarrow> 'e Generator \<Rightarrow> env \<Rightarrow> string \<Rightarrow> 'e Generator \<times> signal list \<times> JSONWorker option" where
  "readData lib g env data =
     (if csvOpen env then (g, [], None)
      else if data = [] then (g, [], None)
      else
        (let g' = g\<lparr>m_frameCount := m_frameCount g + 1\<rparr>
         in if m_processInSeparateThread g' then
              (g', [], Some \<lparr>m_time = currentDateTime env, m_data = data,
                             m_frame = m_frameCount g'\<rparr>)
            else
              (let (g'', out) = processFrame lib g' env data (m_frameCount g')
                                  (currentDateTime env)
               in (g'', out, None))))"

definition setOperationMode :: "'e Generator \<Rightarrow> OperationMode \<Rightarrow> 'e Generator \<times> signal list" where
  "setOperationMode g mode = (g\<lparr>m_opMode := mode\<rparr>, [operationModeChanged])"

definition setProcessFramesInSeparateThread ::
  "'e Generator \<Rightarrow> bool \<Rightarrow> 'e Generator \<times> signal list" where
  "setProcessFramesInSeparateThread g threaded =
     (g\<lparr>m_processInSeparateThread := threaded\<rparr>, [processFramesInSeparateThreadChanged])"

text \<open>
  \<^verbatim>\<open>Generator::loadJsonMap(const QString &path)\<close>. \<open>files env path\<close> is the content of the
  file when \<^verbatim>\<open>open(QFile::ReadOnly)\<close> succeeds, \<open>None\<close> when it fails.
\<close>

definition loadJsonMap ::
  "'e qt \<Rightarrow> 'e Generator \<Rightarrow> env \<Rightarrow> string \<Rightarrow> 'e Generator \<times> signal list" where
  "loadJsonMap lib g env path =
     (if path = [] then (g, [])
      else
        (let (g1, out1) =
               (if isOpen (m_jsonMap g)
                then (g\<lparr>m_jsonMap := (m_jsonMap g)\<lparr>isOpen := False\<rparr>, m_jsonMapData := []\<rparr>,
                      [jsonFileMapChanged])
                else (g, []));
             g2 = g1\<lparr>m_jsonMap := (m_jsonMap g1)\<lparr>fileName := path\<rparr>\<rparr>
         in case files env path of
              Some data \<Rightarrow>
                (let (document, error) = fromJson lib data
                 in if error \<noteq> NoError
                    then (g2\<lparr>m_jsonMap := (m_jsonMap g2)\<lparr>isOpen := False\<rparr>, m_settings := []\<rparr>,
                          out1 @ [showMessageBox ''JSON parse error'', jsonFileMapChanged])
                    else (g2\<lparr>m_jsonMap := (m_jsonMap g2)\<lparr>isOpen := True\<rparr>, m_settings := path,
                             m_jsonMapData := data\<rparr>,
                          out1 @ [jsonFileMapChanged]))
            | None \<Rightarrow>
                (g2\<lparr>m_jsonMapData := [], m_settings := [],
                    m_jsonMap := (m_jsonMap g2)\<lparr>isOpen := False\<rparr>\<rparr>,
                 out1 @ [showMessageBox ''Cannot read JSON file'', jsonFileMapChanged])))"

text \<open>
  The constructor, followed by \<^verbatim>\<open>readSettings\<close>: the map whose path was saved by the last
  session, if any, is loaded.
\<close>

definition Generator_new :: "'e qt \<Rightarrow> 'e \<Rightarrow> env \<Rightarrow> string \<Rightarrow> 'e Generator \<times> signal list" where
  "Generator_new lib e env saved_path =
     (let g = \<lparr>m_frameCount = 0, m_opMode = kAutomatic, m_processInSeparateThread = False,
               m_jsonMapData = [], m_jsonMap = \<lparr>isOpen = False, fileName = []\<rparr>,
               m_settings = saved_path, m_engine = e\<rparr>
      in if saved_path \<noteq> [] then loadJsonMap lib g env saved_path else (g, []))"

subsection \<open>The generator among its signals\<close>

text \<open>
  The generator with the workers whose threads have been started and have not yet run
  \<^verbatim>\<open>process\<close>, and the \<^verbatim>\<open>jsonReady\<close> signals that workers have emitted and that wait in the
  generator's event queue.
\<close>

record 'e system =
  generator :: "'e Generator"
  workers :: "JSONWorker list"
  ready :: "JFI_Object list"

text \<open>
  What can happen to the generator: the signals connected in its constructor
  (\<^verbatim>\<open>frameReceived\<close> to \<^verbatim>\<open>readData\<close>, \<^verbatim>\<open>openChanged\<close> and \<^verbatim>\<open>deviceChanged\<close> to \<^verbatim>\<open>reset\<close>), a
  worker's thread that runs \<^verbatim>\<open>process\<close>, a queued \<^verbatim>\<open>jsonReady\<close> that reaches \<^verbatim>\<open>loadJFI\<close>, and
  calls of the public functions.
\<close>

datatype event =
    FrameReceived string
  | OpenChanged
  | DeviceChanged
  | WorkerProcess nat
  | JsonReady nat
  | LoadJSON QJsonDocument
  | SetOperationMode OperationMode
  | SetProcessFramesInSeparateThread bool
  | LoadJsonMap string

definition without :: "nat \<Rightarrow> 'a list \<Rightarrow> 'a list" where
  "without k xs = take k xs @ drop (Suc k) xs"

fun step :: "'e qt \<Rightarrow> 'e system \<Rightarrow> env \<times> event \<Rightarrow> 'e system \<times> signal list" where
  "step lib sys (env, FrameReceived data) =
     (let (g', out, w) = readData lib (generator sys) env data
      in (sys\<lparr>generator := g',
               workers := workers sys @ (case w of None \<Rightarrow> [] | Some wk \<Rightarrow> [wk])\<rparr>, out))"
| "step lib sys (env, OpenChanged) =
     (let (g', out) = reset (generator sys) env in (sys\<lparr>generator := g'\<rparr>, out))"
| "step lib sys (env, DeviceChanged) =
     (let (g', out) = reset (generator sys) env in (sys\<lparr>generator := g'\<rparr>, out))"
| "step lib sys (env, WorkerProcess k) =
     (if k < length (workers sys) then
        (let r = JSONWorker_process lib (workers sys ! k) (generator sys) env
         in (sys\<lparr>workers := without k (workers sys),
                  ready := ready sys @ (case r of None \<Rightarrow> [] | Some info \<Rightarrow> [info])\<rparr>, []))
      else (sys, []))"
| "step lib sys (env, JsonReady k) =
     (if k < length (ready sys) then
        (let (g', out) = loadJFI (generator sys) env (ready sys ! k)
         in (sys\<lparr>generator := g', ready := without k (ready sys)\<rparr>, out))
      else (sys, []))"
| "step lib sys (env, LoadJSON json) =
     (let (g', out) = loadJSON (generator sys) env json in (sys\<lparr>generator := g'\<rparr>, out))"
| "step lib sys (env, SetOperationMode mode) =
     (let (g', out) = setOperationMode (generator sys) mode in (sys\<lparr>generator := g'\<rparr>, out))"
| "step lib sys (env, SetProcessFramesInSeparateThread threaded) =
     (let (g', out) = setProcessFramesInSeparateThread (generator sys) threaded
      in (sys\<lparr>generator := g'\<rparr>, out))"
| "step lib sys (env, LoadJsonMap path) =
     (let (g', out) = loadJsonMap lib (generator sys) env path in (sys\<lparr>generator := g'\<rparr>, out))"

subsection \<open>Notions used in the statements\<close>

text \<open>A sequence of events, each with the surroundings in which it happens.\<close>

fun run :: "'e qt \<Rightarrow> 'e system \<Rightarrow> (env \<times> event) list \<Rightarrow> 'e system \<times> signal list" where
  "run lib sys [] = (sys, [])"
| "run lib sys (ev # evs) =
     (let (sys', out) = step lib sys ev;
          (sys'', out') = run lib sys' evs
      in (sys'', out @ out'))"

text \<open>The condition under which \<^verbatim>\<open>loadJFI\<close> forwards a frame.\<close>

definition sources_active :: "env \<Rightarrow> bool" where
  "sources_active env \<longleftrightarrow> csvOpen env \<or> connected env \<or> isSubscribed (mqtt env)"

text \<open>
  The events that run \<^verbatim>\<open>Generator::reset\<close>: the two signals connected to it, and the calls
  of \<^verbatim>\<open>loadJFI\<close> (by a queued \<^verbatim>\<open>jsonReady\<close>, or from \<^verbatim>\<open>loadJSON\<close>) that find no source
  active.
\<close>

fun calls_reset :: "'e system \<Rightarrow> env \<times> event \<Rightarrow> bool" where
  "calls_reset sys (env, OpenChanged) = True"
| "calls_reset sys (env, DeviceChanged) = True"
| "calls_reset sys (env, JsonReady k) = (k < length (ready sys) \<and> \<not> sources_active env)"
| "calls_reset sys (env, LoadJSON json) = (\<not> sources_active env)"
| "calls_reset sys (env, ev) = False"

text \<open>No event of the sequence runs \<^verbatim>\<open>reset\<close>.\<close>

fun quiet :: "'e qt \<Rightarrow> 'e system \<Rightarrow> (env \<times> event) list \<Rightarrow> bool" where
  "quiet lib sys [] = True"
| "quiet lib sys (ev # evs) = (\<not> calls_reset sys ev \<and> quiet lib (fst (step lib sys ev)) evs)"

text \<open>
  The events that execute \<^verbatim>\<open>m_frameCount++\<close>: a frame that \<^verbatim>\<open>readData\<close> does not drop, and
  a call of \<^verbatim>\<open>loadJSON\<close>.
\<close>

fun counts :: "env \<times> event \<Rightarrow> bool" where
  "counts (env, FrameReceived data) = (\<not> csvOpen env \<and> data \<noteq> [])"
| "counts (env, LoadJSON json) = True"
| "counts (env, ev) = False"

text \<open>The frame numbers in the frames that a function sends.\<close>

fun signal_numbers :: "signal list \<Rightarrow> 64 word list" where
  "signal_numbers [] = []"
| "signal_numbers (jsonChanged info # out) = frameNumber info # signal_numbers out"
| "signal_numbers (s # out) = signal_numbers out"

text \<open>
  The frame numbers that an event hands out, read from what the code does with them:
  the number that \<^verbatim>\<open>readData\<close> stores in the worker it creates, the number in the frame
  that \<^verbatim>\<open>readData\<close> sends (through \<^verbatim>\<open>processFrame\<close>), and the number in the frame that
  \<^verbatim>\<open>loadJSON\<close> sends. (A queued \<^verbatim>\<open>jsonReady\<close> that is forwarded hands out no number: its
  number was stored in the worker.)
\<close>

fun handed_out :: "'e qt \<Rightarrow> 'e system \<Rightarrow> env \<times> event \<Rightarrow> 64 word list" where
  "handed_out lib sys (env, FrameReceived data) =
     (case readData lib (generator sys) env data of
        (g', out, w) \<Rightarrow> (case w of None \<Rightarrow> [] | Some wk \<Rightarrow> [m_frame wk]) @ signal_numbers out)"
| "handed_out lib sys (env, LoadJSON json) =
     signal_numbers (snd (loadJSON (generator sys) env json))"
| "handed_out lib sys (env, ev) = []"

text \<open>The frame numbers handed out along a sequence of events, in their order.\<close>

fun numbers :: "'e qt \<Rightarrow> 'e system \<Rightarrow> (env \<times> event) list \<Rightarrow> 64 word list" where
  "numbers lib sys [] = []"
| "numbers lib sys (ev # evs) =
     handed_out lib sys ev @ numbers lib (fst (step lib sys ev)) evs"

text \<open>
  The map file is open whenever a map is held: \<^verbatim>\<open>loadJsonMap\<close> keeps this, and no other
  function writes these members.
\<close>

definition map_file_inv :: "'e Generator \<Rightarrow> bool" where
  "map_file_inv g \<longleftrightarrow> (m_jsonMapData g \<noteq> [] \<longrightarrow> isOpen (m_jsonMap g))"

text \<open>The file cannot be opened, or its content is not a JSON document.\<close>

definition load_fails :: "'e qt \<Rightarrow> env \<Rightarrow> string \<Rightarrow> bool" where
  "load_fails lib env path =
     (case files env path of
        None \<Rightarrow> True
      | Some data \<Rightarrow> snd (fromJson lib data) \<noteq> NoError)"

text \<open>The groups of a document and the datasets of a group, as the loops read them.\<close>

definition groups_of :: "QJsonDocument \<Rightarrow> QJsonArray" where
  "groups_of doc = toArray (obj_value (object doc) ''g'')"

definition datasets_of :: "QJsonValue \<Rightarrow> QJsonArray" where
  "datasets_of grp = toArray (obj_value (toObject grp) ''d'')"

text \<open>
  The script of a dataset, as the loop hands it to the engine, and the scripts of a
  document in the order in which the loops evaluate them.
\<close>

definition script_of :: "QJsonValue \<Rightarrow> string" where
  "script_of d = toString (obj_value (toObject d) ''v'')"

definition scripts_of :: "QJsonDocument \<Rightarrow> string list" where
  "scripts_of doc = concat (map (\<lambda>grp. map script_of (datasets_of grp)) (groups_of doc))"

text \<open>
  The document whose datasets \<^verbatim>\<open>processFrame\<close> evaluates for a frame: the parsed text of
  the map with the fields inserted; none in automatic mode and when no map is loaded.
\<close>

definition frame_document :: "'e qt \<Rightarrow> 'e Generator \<Rightarrow> env \<Rightarrow> string \<Rightarrow> QJsonDocument" where
  "frame_document lib g env data =
     (if m_opMode g = kAutomatic \<or> m_jsonMapData g = [] then NullDocument
      else fst (fromJson lib (insert_fields (m_jsonMapData g) (separatorSequence env) data)))"

text \<open>
  The state of the engine when the loops reach dataset \<open>j\<close> of group \<open>i\<close>: the state
  in which the groups before \<open>i\<close> and then the datasets before \<open>j\<close> leave it.
\<close>

definition engine_before ::
  "('e \<Rightarrow> string \<Rightarrow> QJSValue \<times> 'e) \<Rightarrow> 'e \<Rightarrow> QJsonArray \<Rightarrow> nat \<Rightarrow> nat \<Rightarrow> 'e" where
  "engine_before ev e groups i j =
     snd (datasets_loop ev (snd (groups_loop ev e (take i groups) 0))
            (take j (datasets_of (groups ! i))) 0)"

text \<open>
  What the spec says of one dataset, \<open>d\<close> before and \<open>d'\<close> after the evaluation with
  the engine in state \<open>e\<close>: on success the value is replaced by the evaluator's textual
  result (and nothing else of the dataset changes), on an evaluation error the dataset is
  left as it was.
\<close>

definition evaluated_as_spec ::
  "('e \<Rightarrow> string \<Rightarrow> QJSValue \<times> 'e) \<Rightarrow> 'e \<Rightarrow> QJsonValue \<Rightarrow> QJsonValue \<Rightarrow> bool" where
  "evaluated_as_spec ev e d d' =
     (let r = fst (ev e (toString (obj_value (toObject d) ''v'')))
      in if isError r then d' = d
         else obj_value (toObject d') ''v'' = JString (js_toString r) \<and>
              (\<forall>k. k \<noteq> ''v'' \<longrightarrow> obj_value (toObject d') k = obj_value (toObject d) k))"

text \<open>
  The same for a whole document, \<open>jsonDoc\<close> as parsed and \<open>document\<close> as sent: the
  groups and their datasets are as many as before and in the same order, and every
  dataset is evaluated as the spec says.
\<close>

definition datasets_as_spec ::
  "('e \<Rightarrow> string \<Rightarrow> QJSValue \<times> 'e) \<Rightarrow> 'e \<Rightarrow> QJsonDocument \<Rightarrow> QJsonDocument \<Rightarrow> bool" where
  "datasets_as_spec ev e jsonDoc document =
     (length (groups_of document) = length (groups_of jsonDoc) \<and>
      (\<forall>i < length (groups_of jsonDoc).
         length (datasets_of (groups_of document ! i)) =
           length (datasets_of (groups_of jsonDoc ! i)) \<and>
         (\<forall>j < length (datasets_of (groups_of jsonDoc ! i)).
            evaluated_as_spec ev (engine_before ev e (groups_of jsonDoc) i j)
              (datasets_of (groups_of jsonDoc ! i) ! j)
              (datasets_of (groups_of document ! i) ! j))))"

subsection \<open>Sample data\<close>

text \<open>
  A parser that answers as \<^verbatim>\<open>QJsonDocument::fromJson\<close> does on the few texts used in the
  examples of this theory, and rejects every other text.
\<close>

definition map_42 :: string where
  \<open>map_42 = ''{"g":[{"d":[{"v":"%1 * 2"},{"v":"%1 *"}]}]}''\<close>

definition doc_42 :: string where
  \<open>doc_42 = ''{"g":[{"d":[{"v":"21 * 2"},{"v":"21 *"}]}]}''\<close>

definition doc_count :: string where
  \<open>doc_count = ''{"g":[{"d":[{"v":"this.n = (this.n || 0) + 1"}]}]}''\<close>

definition sample_fromJson :: "string \<Rightarrow> QJsonDocument \<times> QJsonParseError" where
  "sample_fromJson text =
     (if text = ''{}'' then (ObjectDocument [], NoError)
      else if text = doc_42 then
        (ObjectDocument
           [(''g'', JArray [JObject [(''d'', JArray [JObject [(''v'', JString ''21 * 2'')],
                                                     JObject [(''v'', JString ''21 *'')]])]])],
         NoError)
      else if text = map_42 then
        (ObjectDocument
           [(''g'', JArray [JObject [(''d'', JArray [JObject [(''v'', JString ''%1 * 2'')],
                                                     JObject [(''v'', JString ''%1 *'')]])]])],
         NoError)
      else if text = doc_count then
        (ObjectDocument
           [(''g'', JArray [JObject [(''d'',
                JArray [JObject [(''v'', JString ''this.n = (this.n || 0) + 1'')]])]])],
         NoError)
      else (NullDocument, ParseError))"

text \<open>
  An engine that answers as \<^verbatim>\<open>QJSEngine\<close> does on three scripts. Its state is the value of
  the global variable \<^verbatim>\<open>n\<close> (0 while \<^verbatim>\<open>n\<close> is undefined): a script that assigns to a
  property of the global object changes the engine for every later script. Scripts it
  does not know are answered by an error.
\<close>

definition sample_evaluate :: "nat \<Rightarrow> string \<Rightarrow> QJSValue \<times> nat" where
  "sample_evaluate n script =
     (if script = ''this.n = (this.n || 0) + 1'' then (QJSValue False (to_string (n + 1)), n + 1)
      else if script = ''21 * 2'' then (QJSValue False ''42'', n)
      else if script = ''21 *'' then (QJSValue True ''SyntaxError'', n)
      else (QJSValue True ''Error'', n))"

definition sample_qt :: "nat qt" where
  "sample_qt = \<lparr>fromJson = sample_fromJson, evaluate = sample_evaluate, newEngine = 0\<rparr>"

text \<open>Four files, one of which does not hold a JSON document; no other file opens.\<close>

definition sample_files :: "string \<Rightarrow> string option" where
  "sample_files path =
     (if path = ''good.json'' then Some ''{}''
      else if path = ''map.json'' then Some map_42
      else if path = ''count.json'' then Some doc_count
      else if path = ''bad.json'' then Some ''{''
      else None)"

text \<open>A device is connected, no CSV file is open, the MQTT client is not connected.\<close>

definition sample_env :: env where
  "sample_env =
     \<lparr>csvOpen = False, connected = True,
      mqtt = \<lparr>isConnectedToHost = False, topic = [], clientMode = ClientPublisher\<rparr>,
      separatorSequence = '','', currentDateTime = 1000, files = sample_files\<rparr>"

text \<open>The same, with the device disconnected: no source of data is active.\<close>

definition idle_env :: env where
  "idle_env = sample_env\<lparr>connected := False\<rparr>"

text \<open>The generator as its constructor leaves it when no map was saved.\<close>

definition sample_generator :: "nat Generator" where
  "sample_generator = fst (Generator_new sample_qt 0 sample_env [])"

definition sample_system :: "nat system" where
  "sample_system = \<lparr>generator = sample_generator, workers = [], ready = []\<rparr>"

text \<open>The generator in manual mode with the map \<^verbatim>\<open>map.json\<close> loaded.\<close>

definition manual_generator :: "nat Generator" where
  "manual_generator =
     generator (fst (run sample_qt sample_system
       [(sample_env, LoadJsonMap ''map.json''), (sample_env, SetOperationMode kManual)]))"

text \<open>
  A frame was dispatched to a worker, the worker has run, and its \<^verbatim>\<open>jsonReady\<close> waits in
  the queue.
\<close>

definition one_ready :: "nat system" where
  "one_ready =
     fst (run sample_qt sample_system
       [(sample_env, SetProcessFramesInSeparateThread True), (sample_env, FrameReceived ''{}''),
        (sample_env, WorkerProcess 0)])"

text \<open>The frame counter has its greatest value.\<close>

definition full_system :: "nat system" where
  "full_system =
     sample_system\<lparr>generator := sample_generator\<lparr>m_frameCount := 18446744073709551615\<rparr>\<rparr>"

section \<open>Auxiliary facts\<close>

subsection \<open>Searching behind a prefix\<close>

text \<open>A search that starts behind a prefix of the text never looks at that prefix.\<close>

lemma std_find_shift:
  "std_find (a @ s) str (length a + k) = map_option (\<lambda>p. length a + p) (std_find s str k)"
  by (simp add: std_find_def option.map_comp comp_def add.assoc)

lemma std_replace_shift:
  "std_replace (a @ s) (length a + p) n v = a @ std_replace s p n v"
  by (simp add: std_replace_def)

lemma replace_loop_shift:
  "replace_loop (a @ s) ident val (length a + k) = a @ replace_loop s ident val k"
proof (induction s ident val k rule: replace_loop.induct)
  case (1 json ident val start_pos)
  show ?case
  proof (cases "ident = []")
    case True
    then show ?thesis by (simp add: replace_loop.simps)
  next
    case ne: False
    show ?thesis
    proof (cases "std_find json ident start_pos")
      case None
      with ne show ?thesis
        by (subst replace_loop.simps, subst (2) replace_loop.simps) (simp add: std_find_shift)
    next
      case (Some p)
      from "1.IH" [OF ne Some]
      have IH: "replace_loop (a @ std_replace json p (length ident) val) ident val
                  (length a + (p + length val)) =
                a @ replace_loop (std_replace json p (length ident) val) ident val (p + length val)" .
      have "replace_loop (a @ json) ident val (length a + start_pos) =
            replace_loop (std_replace (a @ json) (length a + p) (length ident) val) ident val
              (length a + p + length val)"
        using ne Some by (subst replace_loop.simps) (simp add: std_find_shift)
      also have "\<dots> = a @ replace_loop (std_replace json p (length ident) val) ident val (p + length val)"
        using IH by (simp add: std_replace_shift add.assoc)
      also have "\<dots> = a @ replace_loop json ident val start_pos"
        using ne Some by (subst (2) replace_loop.simps) simp
      finally show ?thesis .
    qed
  qed
qed

lemma replace_loop_pass:
  assumes ne: "ident \<noteq> []"
  shows "replace_loop json ident val 0 =
     (case std_find json ident 0 of
        None \<Rightarrow> json
      | Some p \<Rightarrow> take p json @ val @ replace_loop (drop (p + length ident) json) ident val 0)"
proof (cases "std_find json ident 0")
  case None
  with ne show ?thesis by (subst replace_loop.simps) simp
next
  case (Some p)
  from std_find_bounds [OF Some] have len: "p + length ident \<le> length json" by simp
  then have lt: "length (take p json @ val) = p + length val" by simp
  have "replace_loop json ident val 0 =
        replace_loop ((take p json @ val) @ drop (p + length ident) json) ident val
          (length (take p json @ val) + 0)"
    using ne Some by (subst replace_loop.simps) (simp add: std_replace_def lt del: length_append)
  also have "\<dots> = (take p json @ val) @ replace_loop (drop (p + length ident) json) ident val 0"
    by (rule replace_loop_shift)
  finally show ?thesis using Some by simp
qed

lemma fields_loop_fold_from:
  "fields_loop json list i =
     foldl (\<lambda>text k. replace_loop text (''%'' @ to_string (k + 1)) (list ! k) 0) json [i..<length list]"
proof (induction json list i rule: fields_loop.induct)
  case (1 json list i)
  show ?case
  proof (cases "i < length list")
    case True
    with "1.IH" show ?thesis
      by (subst fields_loop.simps) (simp add: upt_conv_Cons)
  next
    case False
    then show ?thesis by (simp add: fields_loop.simps)
  qed
qed

subsection \<open>The loops over groups and datasets\<close>

text \<open>
  Each of the two loops visits the elements of its array once, in order, and hands the
  engine from one element to the next. \<open>thread f e xs\<close> is that pass for a loop body
  \<open>f\<close>; \<open>dataset_step\<close> and \<open>group_step\<close> are the two bodies.
\<close>

fun thread :: "('e \<Rightarrow> 'a \<Rightarrow> 'a \<times> 'e) \<Rightarrow> 'e \<Rightarrow> 'a list \<Rightarrow> 'a list \<times> 'e" where
  "thread f e [] = ([], e)"
| "thread f e (x # xs) = (fst (f e x) # fst (thread f (snd (f e x)) xs), snd (thread f (snd (f e x)) xs))"

definition dataset_step :: "('e \<Rightarrow> string \<Rightarrow> QJSValue \<times> 'e) \<Rightarrow> 'e \<Rightarrow> QJsonValue \<Rightarrow> QJsonValue \<times> 'e" where
  "dataset_step ev e d =
     (let dataset = toObject d; r = ev e (toString (obj_value dataset ''v''))
      in (if \<not> isError (fst r)
          then JObject (obj_insert (obj_remove dataset ''v'') ''v'' (JString (js_toString (fst r))))
          else d, snd r))"

definition group_step :: "('e \<Rightarrow> string \<Rightarrow> QJSValue \<times> 'e) \<Rightarrow> 'e \<Rightarrow> QJsonValue \<Rightarrow> QJsonValue \<times> 'e" where
  "group_step ev e grp =
     (let group = toObject grp; r = datasets_loop ev e (toArray (obj_value group ''d'')) 0
      in (JObject (obj_insert (obj_remove group ''d'') ''d'' (JArray (fst r))), snd r))"

lemma length_thread: "length (fst (thread f e xs)) = length xs"
  by (induction xs arbitrary: e) simp_all

lemma thread_nth:
  "j < length xs \<Longrightarrow> fst (thread f e xs) ! j = fst (f (snd (thread f e (take j xs))) (xs ! j))"
proof (induction xs arbitrary: e j)
  case Nil
  then show ?case by simp
next
  case (Cons x xs)
  then show ?case by (cases j) simp_all
qed

lemma datasets_loop_thread:
  "j \<le> length ds \<Longrightarrow>
   datasets_loop ev e ds j =
     (take j ds @ fst (thread (dataset_step ev) e (drop j ds)),
      snd (thread (dataset_step ev) e (drop j ds)))"
proof (induction ev e ds j rule: datasets_loop.induct)
  case (1 ev e datasets j)
  show ?case
  proof (cases "j < length datasets")
    case False
    with "1.prems" show ?thesis by (simp add: datasets_loop.simps groups_loop.simps)
  next
    case lt: True
    define dataset where "dataset = toObject (datasets ! j)"
    define val where "val = toString (obj_value dataset ''v'')"
    define r where "r = ev e val"
    have dr: "drop j datasets = datasets ! j # drop (Suc j) datasets"
      using lt by (simp add: Cons_nth_drop_Suc)
    have st: "dataset_step ev e (datasets ! j) =
        (if \<not> isError (fst r)
          then JObject (obj_insert (obj_remove dataset ''v'') ''v'' (JString (js_toString (fst r))))
          else datasets ! j, snd r)"
      by (simp add: dataset_step_def Let_def dataset_def val_def r_def)
    show ?thesis
    proof (cases "isError (fst r)")
      case True
      from "1.IH"(2) [OF lt dataset_def val_def r_def] True lt
      have "datasets_loop ev (snd r) datasets (j + 1) =
         (take (j + 1) datasets @ fst (thread (dataset_step ev) (snd r) (drop (j + 1) datasets)),
          snd (thread (dataset_step ev) (snd r) (drop (j + 1) datasets)))"
        by simp
      moreover have "datasets_loop ev e datasets j = datasets_loop ev (snd r) datasets (j + 1)"
        using lt True
        by (subst datasets_loop.simps) (simp add: Let_def dataset_def val_def r_def)
      ultimately show ?thesis
        using True lt by (simp add: dr st take_Suc_conv_app_nth)
    next
      case False
      define x where "x = JObject (obj_insert (obj_remove dataset ''v'') ''v'' (JString (js_toString (fst r))))"
      from "1.IH"(1) [OF lt dataset_def val_def r_def] False lt
      have "datasets_loop ev (snd r) (datasets[j := x]) (j + 1) =
         (take (j + 1) (datasets[j := x]) @ fst (thread (dataset_step ev) (snd r) (drop (j + 1) (datasets[j := x]))),
          snd (thread (dataset_step ev) (snd r) (drop (j + 1) (datasets[j := x]))))"
        by (simp add: x_def)
      moreover have "datasets_loop ev e datasets j = datasets_loop ev (snd r) (datasets[j := x]) (j + 1)"
        using lt False
        by (subst datasets_loop.simps) (simp add: Let_def dataset_def val_def r_def x_def)
      moreover have "take (j + 1) (datasets[j := x]) = take j datasets @ [x]"
        using lt by (simp add: take_Suc_conv_app_nth)
      ultimately show ?thesis
        using False lt by (simp add: dr st x_def)
    qed
  qed
qed

lemma groups_loop_thread:
  "i \<le> length gs \<Longrightarrow>
   groups_loop ev e gs i =
     (take i gs @ fst (thread (group_step ev) e (drop i gs)),
      snd (thread (group_step ev) e (drop i gs)))"
proof (induction ev e gs i rule: groups_loop.induct)
  case (1 ev e groups i)
  show ?case
  proof (cases "i < length groups")
    case False
    with "1.prems" show ?thesis by (simp add: datasets_loop.simps groups_loop.simps)
  next
    case lt: True
    define group where "group = toObject (groups ! i)"
    define datasets where "datasets = toArray (obj_value group ''d'')"
    define r where "r = datasets_loop ev e datasets 0"
    define x where "x = JObject (obj_insert (obj_remove group ''d'') ''d'' (JArray (fst r)))"
    have dr: "drop i groups = groups ! i # drop (Suc i) groups"
      using lt by (simp add: Cons_nth_drop_Suc)
    have st: "group_step ev e (groups ! i) = (x, snd r)"
      by (simp add: group_step_def Let_def group_def datasets_def r_def x_def)
    from "1.IH" [OF lt group_def datasets_def r_def] lt
    have "groups_loop ev (snd r) (groups[i := x]) (i + 1) =
       (take (i + 1) (groups[i := x]) @ fst (thread (group_step ev) (snd r) (drop (i + 1) (groups[i := x]))),
        snd (thread (group_step ev) (snd r) (drop (i + 1) (groups[i := x]))))"
      by (simp add: x_def)
    moreover have "groups_loop ev e groups i = groups_loop ev (snd r) (groups[i := x]) (i + 1)"
      using lt
      by (subst groups_loop.simps) (simp add: Let_def group_def datasets_def r_def x_def)
    moreover have "take (i + 1) (groups[i := x]) = take i groups @ [x]"
      using lt by (simp add: take_Suc_conv_app_nth)
    ultimately show ?thesis
      using lt by (simp add: dr st)
  qed
qed

lemma obj_value_insert_remove_same [simp]:
  "obj_value (obj_insert (obj_remove obj k) k v) k = v"
  by (simp add: obj_value_def obj_insert_def obj_remove_def update_conv')

lemma obj_value_insert_remove_other [simp]:
  "k' \<noteq> k \<Longrightarrow> obj_value (obj_insert (obj_remove obj k) k v) k' = obj_value obj k'"
  by (simp add: obj_value_def obj_insert_def obj_remove_def update_conv' delete_conv')

lemma dataset_step_as_spec: "evaluated_as_spec ev e d (fst (dataset_step ev e d))"
  by (simp add: evaluated_as_spec_def dataset_step_def Let_def)

lemma datasets_loop_0:
  "datasets_loop ev e ds 0 = thread (dataset_step ev) e ds"
  using datasets_loop_thread [of 0 ds ev e] by simp

lemma groups_loop_0:
  "groups_loop ev e gs 0 = thread (group_step ev) e gs"
  using groups_loop_thread [of 0 gs ev e] by simp

lemma datasets_of_group_step:
  "datasets_of (fst (group_step ev e grp)) = fst (thread (dataset_step ev) e (datasets_of grp))"
  by (simp add: group_step_def datasets_of_def Let_def datasets_loop_0)

lemma evaluate_document_as_spec:
  "datasets_as_spec ev e jsonDoc (fst (evaluate_document ev e jsonDoc))"
proof -
  define gs where "gs = groups_of jsonDoc"
  have g': "groups_of (fst (evaluate_document ev e jsonDoc)) = fst (thread (group_step ev) e gs)"
    by (simp add: evaluate_document_def groups_of_def gs_def Let_def groups_loop_0)
  have "length (datasets_of (fst (thread (group_step ev) e gs) ! i)) = length (datasets_of (gs ! i)) \<and>
        (\<forall>j < length (datasets_of (gs ! i)).
            evaluated_as_spec ev (engine_before ev e gs i j)
              (datasets_of (gs ! i) ! j)
              (datasets_of (fst (thread (group_step ev) e gs) ! i) ! j))"
    if i: "i < length gs" for i
  proof -
    define ei where "ei = snd (thread (group_step ev) e (take i gs))"
    have gi: "datasets_of (fst (thread (group_step ev) e gs) ! i) =
              fst (thread (dataset_step ev) ei (datasets_of (gs ! i)))"
      using i by (simp add: thread_nth datasets_of_group_step ei_def)
    have "evaluated_as_spec ev (engine_before ev e gs i j) (datasets_of (gs ! i) ! j)
            (fst (thread (dataset_step ev) ei (datasets_of (gs ! i))) ! j)"
      if j: "j < length (datasets_of (gs ! i))" for j
    proof -
      have "engine_before ev e gs i j = snd (thread (dataset_step ev) ei (take j (datasets_of (gs ! i))))"
        by (simp add: engine_before_def groups_loop_0 datasets_loop_0 ei_def)
      then show ?thesis
        using j by (simp add: thread_nth dataset_step_as_spec)
    qed
    then show ?thesis by (simp add: gi length_thread)
  qed
  then show ?thesis
    by (simp add: datasets_as_spec_def g' length_thread flip: gs_def)
qed

lemma thread_keeps:
  "(\<And>x. x \<in> set xs \<Longrightarrow> snd (f e x) = e) \<Longrightarrow> snd (thread f e xs) = e"
  by (induction xs) simp_all

lemma snd_dataset_step: "snd (dataset_step ev e d) = snd (ev e (script_of d))"
  by (simp add: dataset_step_def script_of_def Let_def)

lemma datasets_keep:
  assumes "\<And>d. d \<in> set ds \<Longrightarrow> snd (ev e (script_of d)) = e"
  shows "snd (datasets_loop ev e ds 0) = e"
  using assms by (simp add: datasets_loop_0 thread_keeps snd_dataset_step)

lemma snd_group_step:
  "snd (group_step ev e grp) = snd (datasets_loop ev e (datasets_of grp) 0)"
  by (simp add: group_step_def datasets_of_def Let_def)

lemma groups_keep:
  assumes "\<And>grp d. grp \<in> set gs \<Longrightarrow> d \<in> set (datasets_of grp) \<Longrightarrow>
             snd (ev e (script_of d)) = e"
  shows "snd (groups_loop ev e gs 0) = e"
proof -
  have "snd (group_step ev e grp) = e" if "grp \<in> set gs" for grp
    using assms [OF that] by (simp add: snd_group_step datasets_keep)
  then show ?thesis
    by (simp add: groups_loop_0 thread_keeps)
qed

lemma script_in_scripts_of:
  "grp \<in> set (groups_of doc) \<Longrightarrow> d \<in> set (datasets_of grp) \<Longrightarrow>
   script_of d \<in> set (scripts_of doc)"
  by (auto simp: scripts_of_def)

lemma evaluate_document_keeps:
  assumes "\<forall>s \<in> set (scripts_of jsonDoc). snd (ev e s) = e"
  shows "snd (evaluate_document ev e jsonDoc) = e"
proof -
  have "snd (groups_loop ev e (groups_of jsonDoc) 0) = e"
  proof (rule groups_keep)
    fix grp d
    assume "grp \<in> set (groups_of jsonDoc)" and "d \<in> set (datasets_of grp)"
    then have "script_of d \<in> set (scripts_of jsonDoc)"
      by (rule script_in_scripts_of)
    with assms show "snd (ev e (script_of d)) = e" by blast
  qed
  then show ?thesis
    by (simp add: evaluate_document_def groups_of_def Let_def)
qed

lemma engine_before_keeps:
  assumes "\<forall>s \<in> set (scripts_of jsonDoc). snd (ev e s) = e"
    and "i < length (groups_of jsonDoc)"
  shows "engine_before ev e (groups_of jsonDoc) i j = e"
proof -
  let ?gs = "groups_of jsonDoc"
  have 1: "snd (groups_loop ev e (take i ?gs) 0) = e"
  proof (rule groups_keep)
    fix grp d
    assume g: "grp \<in> set (take i ?gs)" and d: "d \<in> set (datasets_of grp)"
    from g have "grp \<in> set ?gs" by (rule in_set_takeD)
    then have "script_of d \<in> set (scripts_of jsonDoc)"
      using d by (rule script_in_scripts_of)
    with assms(1) show "snd (ev e (script_of d)) = e" by blast
  qed
  have gi: "?gs ! i \<in> set ?gs"
    using assms(2) by simp
  have 2: "snd (datasets_loop ev e (take j (datasets_of (?gs ! i))) 0) = e"
  proof (rule datasets_keep)
    fix d
    assume "d \<in> set (take j (datasets_of (?gs ! i)))"
    then have "d \<in> set (datasets_of (?gs ! i))" by (rule in_set_takeD)
    with gi have "script_of d \<in> set (scripts_of jsonDoc)"
      by (rule script_in_scripts_of)
    with assms(1) show "snd (ev e (script_of d)) = e" by blast
  qed
  from 1 2 show ?thesis
    by (simp add: engine_before_def)
qed

lemma processFrame_keeps:
  assumes "\<forall>s \<in> set (scripts_of (frame_document lib g env data)).
             snd (evaluate lib (m_engine g) s) = m_engine g"
  shows "fst (processFrame lib g env data n t) = g"
proof (cases "m_opMode g = kAutomatic \<or> m_jsonMapData g = []")
  case True
  then show ?thesis
    by (auto simp: processFrame_def Let_def split: prod.splits)
next
  case False
  obtain jsonDoc err where p:
    "fromJson lib (insert_fields (m_jsonMapData g) (separatorSequence env) data) = (jsonDoc, err)"
    by (cases "fromJson lib (insert_fields (m_jsonMapData g) (separatorSequence env) data)")
  with False have fd: "frame_document lib g env data = jsonDoc"
    by (simp add: frame_document_def)
  obtain document e' where d: "evaluate_document (evaluate lib) (m_engine g) jsonDoc = (document, e')"
    by (cases "evaluate_document (evaluate lib) (m_engine g) jsonDoc")
  from evaluate_document_keeps [of jsonDoc "evaluate lib" "m_engine g"] assms fd d
  have "e' = m_engine g" by simp
  with False p d show ?thesis
    by (simp add: processFrame_def Let_def)
qed

subsection \<open>What processing a frame leaves alone\<close>

lemma processFrame_members:
  "\<exists>e. fst (processFrame lib g env data n t) = g\<lparr>m_engine := e\<rparr>"
proof (cases "m_opMode g = kAutomatic \<or> m_jsonMapData g = []")
  case True
  have "g = g\<lparr>m_engine := m_engine g\<rparr>" by simp
  with True show ?thesis
    by (auto simp: processFrame_def Let_def split: prod.splits intro: exI [of _ "m_engine g"])
next
  case False
  then show ?thesis
    by (auto simp: processFrame_def Let_def split: prod.splits)
qed

lemma processFrame_counter:
  "m_frameCount (fst (processFrame lib g env data n t)) = m_frameCount g"
  using processFrame_members [of lib g env data n t] by auto

lemma processFrame_out:
  "snd (processFrame lib g env data n t) = [] \<or>
   (\<exists>document. snd (processFrame lib g env data n t) = [jsonChanged (JFI_CreateNew n t document)])"
  by (auto simp: processFrame_def Let_def split: prod.splits)

lemma loadJsonMap_counter:
  "m_frameCount (fst (loadJsonMap lib g env path)) = m_frameCount g"
  by (auto simp: loadJsonMap_def Let_def split: option.splits prod.splits if_splits)

lemma processFrame_surroundings:
  "processFrame lib g (env\<lparr>csvOpen := a, connected := b, mqtt := c\<rparr>) data n t =
   processFrame lib g env data n t"
  by (simp add: processFrame_def)

text \<open>
  What \<^verbatim>\<open>readData\<close> does with a frame it does not drop: the counter is incremented, and the
  new value is the number of the frame, in the worker or in what \<^verbatim>\<open>processFrame\<close> sends,
  whether or not the frame parses and whether or not a map is loaded.
\<close>

lemma readData_accepted:
  assumes "\<not> csvOpen env" and "data \<noteq> []"
  shows "m_frameCount (fst (readData lib g env data)) = m_frameCount g + 1"
    and "\<forall>info. jsonChanged info \<in> set (fst (snd (readData lib g env data))) \<longrightarrow>
           frameNumber info = m_frameCount g + 1"
    and "\<forall>w. snd (snd (readData lib g env data)) = Some w \<longrightarrow> m_frame w = m_frameCount g + 1"
proof -
  let ?g = "g\<lparr>m_frameCount := m_frameCount g + 1\<rparr>"
  let ?p = "processFrame lib ?g env data (m_frameCount g + 1) (currentDateTime env)"
  have r: "readData lib g env data =
     (if m_processInSeparateThread g
      then (?g, [], Some \<lparr>m_time = currentDateTime env, m_data = data, m_frame = m_frameCount g + 1\<rparr>)
      else (fst ?p, snd ?p, None))"
    using assms by (simp add: readData_def Let_def split: prod.splits)
  show "m_frameCount (fst (readData lib g env data)) = m_frameCount g + 1"
    by (simp add: r processFrame_counter)
  show "\<forall>info. jsonChanged info \<in> set (fst (snd (readData lib g env data))) \<longrightarrow>
           frameNumber info = m_frameCount g + 1"
    using processFrame_out [of lib ?g env data "m_frameCount g + 1" "currentDateTime env"]
    by (auto simp: r JFI_CreateNew_def)
  show "\<forall>w. snd (snd (readData lib g env data)) = Some w \<longrightarrow> m_frame w = m_frameCount g + 1"
    by (auto simp: r)
qed

lemma readData_dropped:
  "csvOpen env \<or> data = [] \<Longrightarrow> readData lib g env data = (g, [], None)"
  by (auto simp: readData_def)

subsection \<open>The map file\<close>

lemma map_file_inv_new: "map_file_inv (fst (Generator_new lib e env saved_path))"
  by (auto simp: map_file_inv_def Generator_new_def loadJsonMap_def Let_def
      split: option.splits prod.splits if_splits)

lemma map_file_inv_loadJsonMap:
  "map_file_inv g \<Longrightarrow> map_file_inv (fst (loadJsonMap lib g env path))"
  by (auto simp: map_file_inv_def loadJsonMap_def Let_def
      split: option.splits prod.splits if_splits)

lemma map_file_inv_step:
  assumes "map_file_inv (generator sys)"
  shows "map_file_inv (generator (fst (step lib sys x)))"
proof -
  obtain env ev where x: "x = (env, ev)" by (cases x)
  show ?thesis
  proof (cases ev)
    case (FrameReceived data)
    obtain e where "fst (processFrame lib ((generator sys)\<lparr>m_frameCount := m_frameCount (generator sys) + 1\<rparr>)
        env data (m_frameCount (generator sys) + 1) (currentDateTime env)) =
        (generator sys)\<lparr>m_frameCount := m_frameCount (generator sys) + 1, m_engine := e\<rparr>"
      using processFrame_members by fastforce
    with assms x FrameReceived show ?thesis
      by (auto simp: readData_def Let_def map_file_inv_def split: prod.splits)
  next
    case (LoadJsonMap path)
    with assms x show ?thesis
      using map_file_inv_loadJsonMap [of "generator sys" lib env path]
      by (auto split: prod.splits)
  qed (use assms x in \<open>auto simp: map_file_inv_def reset_def loadJFI_def loadJSON_def
         setOperationMode_def setProcessFramesInSeparateThread_def Let_def split: prod.splits if_splits\<close>)
qed

subsection \<open>The counter along events\<close>

lemma step_counter:
  assumes "\<not> calls_reset sys x"
  shows "m_frameCount (generator (fst (step lib sys x))) =
         m_frameCount (generator sys) + (if counts x then 1 else 0)"
proof -
  obtain env ev where x: "x = (env, ev)" by (cases x)
  show ?thesis
  proof (cases ev)
    case (FrameReceived data)
    show ?thesis
    proof (cases "csvOpen env \<or> data = []")
      case True
      with x FrameReceived readData_dropped [OF True, of lib "generator sys"] show ?thesis
        by auto
    next
      case False
      with x FrameReceived readData_accepted(1) [of env data lib "generator sys"] show ?thesis
        by (auto split: prod.splits)
    qed
  next
    case (LoadJsonMap path)
    with x loadJsonMap_counter [of lib "generator sys" env path] show ?thesis
      by (auto split: prod.splits)
  qed (use assms x in \<open>auto simp: loadJFI_def loadJSON_def sources_active_def
         setOperationMode_def setProcessFramesInSeparateThread_def Let_def split: prod.splits if_splits\<close>)
qed


lemma fst_run_Cons:
  "fst (run lib sys (x # evs)) = fst (run lib (fst (step lib sys x)) evs)"
  by (simp add: Let_def split: prod.splits)


lemma unat_counter_plus:
  "unat (c :: 64 word) + k < 2 ^ 64 \<Longrightarrow> unat (c + of_nat k) = unat c + k"
  by (simp add: unat_word_ariths unat_of_nat)

lemma signal_numbers_processFrame:
  "signal_numbers (snd (processFrame lib g env data n t)) = [] \<or>
   signal_numbers (snd (processFrame lib g env data n t)) = [n]"
  using processFrame_out [of lib g env data n t] by (auto simp: JFI_CreateNew_def)

text \<open>
  An event that does not run \<^verbatim>\<open>reset\<close> hands out no number or one, and only if it counts
  a frame; the number it hands out is the successor of the counter.
\<close>

lemma handed_out_quiet:
  assumes "\<not> calls_reset sys x"
  shows "handed_out lib sys x = [] \<or>
         (counts x \<and> handed_out lib sys x = [m_frameCount (generator sys) + 1])"
proof -
  obtain env ev where x: "x = (env, ev)" by (cases x)
  let ?g = "generator sys"
  show ?thesis
  proof (cases ev)
    case (FrameReceived data)
    show ?thesis
    proof (cases "csvOpen env \<or> data = []")
      case True
      with x FrameReceived readData_dropped [OF True, of lib ?g] show ?thesis
        by simp
    next
      case False
      let ?g' = "?g\<lparr>m_frameCount := m_frameCount ?g + 1\<rparr>"
      let ?p = "processFrame lib ?g' env data (m_frameCount ?g + 1) (currentDateTime env)"
      have r: "readData lib ?g env data =
         (if m_processInSeparateThread ?g
          then (?g', [], Some \<lparr>m_time = currentDateTime env, m_data = data,
                               m_frame = m_frameCount ?g + 1\<rparr>)
          else (fst ?p, snd ?p, None))"
        using False by (simp add: readData_def Let_def split: prod.splits)
      from signal_numbers_processFrame
        [of lib ?g' env data "m_frameCount ?g + 1" "currentDateTime env"]
      show ?thesis
        using False x FrameReceived by (auto simp: r)
    qed
  next
    case (LoadJSON json)
    with assms x show ?thesis
      by (simp add: loadJSON_def loadJFI_def sources_active_def Let_def JFI_CreateNew_def)
  qed (use x in auto)
qed

lemma quiet_counter:
  "quiet lib sys evs \<Longrightarrow>
   m_frameCount (generator (fst (run lib sys evs))) =
     m_frameCount (generator sys) + of_nat (length (filter counts evs))"
proof (induction evs arbitrary: sys)
  case Nil
  then show ?case by simp
next
  case (Cons x evs)
  from Cons.prems have q: "\<not> calls_reset sys x" and q': "quiet lib (fst (step lib sys x)) evs"
    by simp_all
  from step_counter [OF q, of lib] Cons.IH [OF q'] show ?case
    by (simp add: fst_run_Cons add.assoc del: run.simps)
qed

lemma quiet_numbers:
  "quiet lib sys evs \<Longrightarrow>
   unat (m_frameCount (generator sys)) + length (filter counts evs) < 2 ^ 64 \<Longrightarrow>
   sorted_wrt (<) (map unat (numbers lib sys evs)) \<and>
   (\<forall>m \<in> set (numbers lib sys evs).
      unat (m_frameCount (generator sys)) < unat m \<and>
      unat m \<le> unat (m_frameCount (generator sys)) + length (filter counts evs))"
proof (induction evs arbitrary: sys)
  case Nil
  then show ?case by simp
next
  case (Cons x evs)
  let ?c = "m_frameCount (generator sys)"
  let ?sys = "fst (step lib sys x)"
  let ?c' = "m_frameCount (generator ?sys)"
  let ?n = "length (filter counts evs)"
  from Cons.prems have q: "\<not> calls_reset sys x" and q': "quiet lib ?sys evs"
    by simp_all
  have c': "?c' = ?c + of_nat (if counts x then 1 else 0)"
    using step_counter [OF q, of lib] by simp
  have u: "unat ?c' = unat ?c + (if counts x then 1 else 0)"
    using Cons.prems(2) by (subst c', subst unat_counter_plus) auto
  with Cons.prems(2) have b: "unat ?c' + ?n < 2 ^ 64"
    by (auto split: if_splits)
  note IH = Cons.IH [OF q' b]
  from handed_out_quiet [OF q, of lib] show ?case
  proof
    assume "handed_out lib sys x = []"
    with IH u show ?thesis
      by (auto split: if_splits)
  next
    assume h: "counts x \<and> handed_out lib sys x = [?c + 1]"
    with u have 1: "unat (?c + 1) = unat ?c + 1"
      using c' by simp
    from h IH u 1 show ?thesis
      by auto
  qed
qed

lemma quiet_handed_out:
  "quiet lib sys evs \<Longrightarrow> k < length evs \<Longrightarrow>
   m \<in> set (handed_out lib (fst (run lib sys (take k evs))) (evs ! k)) \<Longrightarrow>
   m = m_frameCount (generator (fst (run lib sys (take (Suc k) evs))))"
proof (induction evs arbitrary: sys k)
  case Nil
  then show ?case by simp
next
  case (Cons x evs)
  from Cons.prems(1) have q: "\<not> calls_reset sys x" and q': "quiet lib (fst (step lib sys x)) evs"
    by simp_all
  show ?case
  proof (cases k)
    case 0
    with Cons.prems(3) have "m \<in> set (handed_out lib sys x)" by simp
    with handed_out_quiet [OF q, of lib] step_counter [OF q, of lib] 0 show ?thesis
      by (auto simp: fst_run_Cons simp del: run.simps(2))
  next
    case (Suc k')
    with Cons.prems(2,3) have "k' < length evs"
      and "m \<in> set (handed_out lib (fst (run lib (fst (step lib sys x)) (take k' evs))) (evs ! k'))"
      by (simp_all add: fst_run_Cons del: run.simps(2))
    from Cons.IH [OF q' this] Suc show ?thesis
      by (simp add: fst_run_Cons del: run.simps(2))
  qed
qed

section \<open>Properties\<close>

subsection \<open>The markers of the JSON map\<close>

text \<open>
  C1, as the code has it. The markers are processed in the order of the fields, one pass
  of \<^verbatim>\<open>find\<close>/\<^verbatim>\<open>replace\<close> per marker, each pass from the start of the current text. Within
  one pass the leftmost occurrence of the marker is replaced by the field's value, the
  value is inserted as it is, and the pass goes on in the text behind the inserted value:
  the value is not searched for the marker of that same pass. (Nothing keeps the later
  passes from the inserted values: they search the whole text again.)
\<close>

theorem C1_pass_inserts_value_verbatim:
  assumes "ident \<noteq> []"
  shows "fields_loop json list 0 =
           foldl (\<lambda>text k. replace_loop text (''%'' @ to_string (k + 1)) (list ! k) 0) json
             [0..<length list] \<and>
         replace_loop json ident val 0 =
           (case std_find json ident 0 of
              None \<Rightarrow> json
            | Some p \<Rightarrow>
                take p json @ val @ replace_loop (drop (p + length ident) json) ident val 0)"
  using replace_loop_pass [OF assms] fields_loop_fold_from [of json list 0] by simp

theorem C1_pass_inserts_value_verbatim_witness:
  "replace_loop ''a%1b%1'' ''%1'' ''<%1>'' 0 = ''a<%1>b<%1>''"
proof -
  have ne: "''%1'' \<noteq> []" by simp
  have "replace_loop ''b%1'' ''%1'' ''<%1>'' 0 = ''b<%1>''"
    by code_simp
  moreover have "std_find ''a%1b%1'' ''%1'' 0 = Some 1"
    by code_simp
  ultimately show ?thesis
    using C1_pass_inserts_value_verbatim [OF ne, of "''a%1b%1''" "[]" "''<%1>''"] by simp
qed

text \<open>
  The claim as the spec words it fails: the value of field 1 is \<^verbatim>\<open>%2\<close>, it is inserted
  for \<^verbatim>\<open>%1\<close>, and the pass for \<^verbatim>\<open>%2\<close> then replaces it by the value of field 2.
\<close>

theorem C1_later_pass_rescans_inserted_value:
  "insert_fields ''[%1]'' '','' ''%2,X'' = ''[X]'' \<and>
   insert_fields ''[%1]'' '','' ''%2,X'' \<noteq> ''[%2]''"
  by code_simp

text \<open>
  C2. A frame of ten fields and a map that uses \<^verbatim>\<open>%1\<close> and \<^verbatim>\<open>%10\<close>: the pass for \<^verbatim>\<open>%1\<close>
  also replaces the first two characters of \<^verbatim>\<open>%10\<close>, so that no \<^verbatim>\<open>%10\<close> is left for the
  tenth pass, and the text holds the first field followed by \<^verbatim>\<open>0\<close> where the tenth field
  belongs.
\<close>

theorem C2_marker_10_overwritten_by_pass_1:
  "insert_fields ''[%1,%10]'' '','' ''a,b,c,d,e,f,g,h,i,j'' = ''[a,a0]''"
  by code_simp

subsection \<open>Frames processed by a worker\<close>

text \<open>
  C3, as the code has it. The worker that \<^verbatim>\<open>readData\<close> creates holds the frame, the frame
  number and the time of the dispatch, and nothing else. What \<^verbatim>\<open>process\<close> makes of them
  depends, besides, on the operation mode and the JSON map of the generator and on the
  separator of the I/O manager as they are when \<^verbatim>\<open>process\<close> runs: two runs of the worker
  that agree on these three give the same result.
\<close>

theorem C3_worker_reads_mode_and_map_when_it_runs:
  assumes "readData lib g0 env0 data = (g0', out, Some w)"
    and "m_opMode g1 = m_opMode g2"
    and "m_jsonMapData g1 = m_jsonMapData g2"
    and "separatorSequence env1 = separatorSequence env2"
  shows "w = \<lparr>m_time = currentDateTime env0, m_data = data, m_frame = m_frameCount g0 + 1\<rparr> \<and>
         JSONWorker_process lib w g1 env1 = JSONWorker_process lib w g2 env2"
proof
  from assms(1)
  show "w = \<lparr>m_time = currentDateTime env0, m_data = data, m_frame = m_frameCount g0 + 1\<rparr>"
    by (auto simp: readData_def Let_def split: if_splits prod.splits)
  from assms(2-4) show "JSONWorker_process lib w g1 env1 = JSONWorker_process lib w g2 env2"
    by (simp add: JSONWorker_process_def)
qed

theorem C3_worker_reads_mode_and_map_when_it_runs_witness:
  "JSONWorker_process sample_qt \<lparr>m_time = 1000, m_data = ''{}'', m_frame = 1\<rparr>
     (sample_generator\<lparr>m_processInSeparateThread := True\<rparr>) sample_env =
   JSONWorker_process sample_qt \<lparr>m_time = 1000, m_data = ''{}'', m_frame = 1\<rparr>
     (sample_generator\<lparr>m_frameCount := 7\<rparr>) idle_env"
proof -
  have "readData sample_qt (sample_generator\<lparr>m_processInSeparateThread := True\<rparr>) sample_env ''{}'' =
          (sample_generator\<lparr>m_processInSeparateThread := True, m_frameCount := 1\<rparr>, [],
           Some \<lparr>m_time = 1000, m_data = ''{}'', m_frame = 1\<rparr>)"
    by code_simp
  moreover have "separatorSequence sample_env = separatorSequence idle_env"
    by (simp add: idle_env_def)
  ultimately show ?thesis
    using C3_worker_reads_mode_and_map_when_it_runs
      [of sample_qt "sample_generator\<lparr>m_processInSeparateThread := True\<rparr>" sample_env "''{}''"
          _ _ _ "sample_generator\<lparr>m_processInSeparateThread := True\<rparr>"
          "sample_generator\<lparr>m_frameCount := 7\<rparr>" sample_env idle_env]
    by simp
qed

text \<open>
  The claim as the spec words it fails. A frame is dispatched in automatic mode; in the
  first run the worker runs at once and its frame is sent; in the second run the
  operation mode is changed after the dispatch and before the worker runs, and the
  worker, now in manual mode without a map, sends nothing.
\<close>

theorem C3_mode_change_after_dispatch_changes_result:
  "snd (run sample_qt sample_system
     [(sample_env, SetProcessFramesInSeparateThread True), (sample_env, FrameReceived ''{}''),
      (sample_env, WorkerProcess 0), (sample_env, JsonReady 0)]) =
     [processFramesInSeparateThreadChanged,
      jsonChanged \<lparr>frameNumber = 1, rxDateTime = 1000, jsonDocument = ObjectDocument []\<rparr>] \<and>
   snd (run sample_qt sample_system
     [(sample_env, SetProcessFramesInSeparateThread True), (sample_env, FrameReceived ''{}''),
      (sample_env, SetOperationMode kManual),
      (sample_env, WorkerProcess 0), (sample_env, JsonReady 0)]) =
     [processFramesInSeparateThreadChanged, operationModeChanged]"
  by code_simp

subsection \<open>Loading a map that cannot be loaded\<close>

text \<open>
  C4, as the code has it. A call of \<^verbatim>\<open>loadJsonMap\<close> with a path that is not empty, for a
  file that cannot be read or does not hold a JSON document, leaves the generator without
  a map, whatever map it held before: \<open>m_jsonMapData\<close> is empty, the saved path is empty
  and the file is closed. (The generator is in a state in which the file of the map it
  holds is open, as in every state the constructor and the events lead to.)
\<close>

theorem C4_failed_load_clears_map:
  assumes "path \<noteq> []" and "load_fails lib env path" and "map_file_inv g"
  shows "m_jsonMapData (fst (loadJsonMap lib g env path)) = [] \<and>
         m_settings (fst (loadJsonMap lib g env path)) = [] \<and>
         \<not> isOpen (m_jsonMap (fst (loadJsonMap lib g env path)))"
  using assms
  by (auto simp: map_file_inv_def load_fails_def loadJsonMap_def Let_def
      split: option.splits prod.splits if_splits)

theorem C4_failed_load_clears_map_witness:
  "m_jsonMapData (fst (loadJsonMap sample_qt
      (fst (Generator_new sample_qt 0 sample_env ''map.json'')) sample_env ''missing.json'')) = [] \<and>
   m_settings (fst (loadJsonMap sample_qt
      (fst (Generator_new sample_qt 0 sample_env ''map.json'')) sample_env ''missing.json'')) = [] \<and>
   \<not> isOpen (m_jsonMap (fst (loadJsonMap sample_qt
      (fst (Generator_new sample_qt 0 sample_env ''map.json'')) sample_env ''missing.json'')))"
proof -
  have "''missing.json'' \<noteq> []" by simp
  moreover have "load_fails sample_qt sample_env ''missing.json''"
    by code_simp
  ultimately show ?thesis
    using C4_failed_load_clears_map [of "''missing.json''" sample_qt sample_env
        "fst (Generator_new sample_qt 0 sample_env ''map.json'')"]
      map_file_inv_new [of sample_qt 0 sample_env "''map.json''"]
    by blast
qed

text \<open>
  The claim as the spec words it fails: a map is loaded, then a file that does not hold
  a JSON document is loaded, and the map is gone.
\<close>

theorem C4_failed_load_loses_previous_map:
  "m_jsonMapData (fst (loadJsonMap sample_qt sample_generator sample_env ''good.json'')) = ''{}'' \<and>
   m_jsonMapData (fst (loadJsonMap sample_qt
      (fst (loadJsonMap sample_qt sample_generator sample_env ''good.json''))
      sample_env ''bad.json'')) = []"
  by code_simp

subsection \<open>The datasets and the engine\<close>

text \<open>
  C5, as the code has it. The engine keeps its state from one evaluation to the next:
  \<^verbatim>\<open>processFrame\<close> evaluates every dataset of every frame with the generator's engine
  \<open>m_engine\<close>, a worker evaluates every dataset of its frame with one engine that it
  creates for itself. So what a worker sends does not depend on the generator's engine,
  and with it on nothing that was evaluated for other frames. And when each script of a
  frame, evaluated in the state in which the engine is before the frame, leaves the
  engine in that state, then \<^verbatim>\<open>processFrame\<close> evaluates every dataset of the frame in that
  state (equal scripts give equal results), the generator is after the frame what it was
  before, and every later frame, the same frame again among them, is processed as if
  the first had not been.
\<close>

theorem C5_same_result_when_scripts_leave_engine:
  assumes "\<forall>s \<in> set (scripts_of (frame_document lib g env data)).
             snd (evaluate lib (m_engine g) s) = m_engine g"
  shows "JSONWorker_process lib w (g\<lparr>m_engine := e\<rparr>) env' = JSONWorker_process lib w g env' \<and>
         (\<forall>i j. i < length (groups_of (frame_document lib g env data)) \<longrightarrow>
            engine_before (evaluate lib) (m_engine g)
              (groups_of (frame_document lib g env data)) i j = m_engine g) \<and>
         fst (processFrame lib g env data n t) = g \<and>
         processFrame lib (fst (processFrame lib g env data n t)) env' data' n' t' =
           processFrame lib g env' data' n' t'"
proof -
  have "fst (processFrame lib g env data n t) = g"
    using assms by (rule processFrame_keeps)
  moreover have "engine_before (evaluate lib) (m_engine g)
      (groups_of (frame_document lib g env data)) i j = m_engine g"
    if "i < length (groups_of (frame_document lib g env data))" for i j
    using assms that by (rule engine_before_keeps)
  ultimately show ?thesis
    by (simp add: JSONWorker_process_def)
qed

text \<open>
  The engine of \<open>sample_qt\<close> has a state, and the two scripts of the map \<^verbatim>\<open>map.json\<close> with
  the frame \<^verbatim>\<open>21\<close> leave it alone: the frame is processed a second time, with the next
  frame number, as it would be processed the first time.
\<close>

theorem C5_same_result_when_scripts_leave_engine_witness:
  "scripts_of (frame_document sample_qt manual_generator sample_env ''21'') =
     [''21 * 2'', ''21 *''] \<and>
   fst (processFrame sample_qt manual_generator sample_env ''21'' 1 1000) = manual_generator \<and>
   processFrame sample_qt
     (fst (processFrame sample_qt manual_generator sample_env ''21'' 1 1000))
     sample_env ''21'' 2 1001 =
   processFrame sample_qt manual_generator sample_env ''21'' 2 1001"
proof -
  have s: "scripts_of (frame_document sample_qt manual_generator sample_env ''21'') =
     [''21 * 2'', ''21 *'']"
    by code_simp
  have e: "m_engine manual_generator = 0"
    by code_simp
  have "\<forall>s \<in> set (scripts_of (frame_document sample_qt manual_generator sample_env ''21'')).
          snd (evaluate sample_qt (m_engine manual_generator) s) = m_engine manual_generator"
    by (simp only: s e) (simp add: sample_qt_def sample_evaluate_def)
  from C5_same_result_when_scripts_leave_engine [OF this, where n = 1 and t = 1000
      and env' = sample_env and data' = "''21''" and n' = 2 and t' = 1001] s
  show ?thesis by simp
qed

text \<open>
  The claim as the spec words it fails. The map \<^verbatim>\<open>count.json\<close> has one dataset, whose
  script adds 1 to a property of the global object; it has no marker, so every frame
  gives the same text to the evaluator. In manual mode, processed by \<^verbatim>\<open>processFrame\<close>,
  the first frame's dataset is \<^verbatim>\<open>1\<close> and the second frame's is \<^verbatim>\<open>2\<close>.
\<close>

theorem C5_engine_state_persists_across_frames:
  "snd (run sample_qt sample_system
     [(sample_env, LoadJsonMap ''count.json''), (sample_env, SetOperationMode kManual),
      (sample_env, FrameReceived ''0''), (sample_env, FrameReceived ''0'')]) =
     [jsonFileMapChanged, operationModeChanged,
      jsonChanged \<lparr>frameNumber = 1, rxDateTime = 1000, jsonDocument =
        ObjectDocument [(''g'', JArray [JObject [(''d'',
          JArray [JObject [(''v'', JString ''1'')]])]])]\<rparr>,
      jsonChanged \<lparr>frameNumber = 2, rxDateTime = 1000, jsonDocument =
        ObjectDocument [(''g'', JArray [JObject [(''d'',
          JArray [JObject [(''v'', JString ''2'')]])]])]\<rparr>]"
  by code_simp

text \<open>
  C6. In manual mode with a map loaded, when the text with the fields inserted parses
  without error: the frame is sent, by \<^verbatim>\<open>processFrame\<close> (\<^verbatim>\<open>jsonChanged\<close>) as well as by a
  worker (\<^verbatim>\<open>jsonReady\<close>), with the frame number and the time it was given, and in the
  document that is sent every dataset of every group is as the spec says: its value
  replaced by the evaluator's text where the evaluation succeeded, the dataset as it was
  parsed where the evaluation failed. An evaluation error never keeps the frame from
  being sent.
\<close>

theorem C6_datasets_evaluated_and_frame_sent:
  assumes "m_opMode g \<noteq> kAutomatic" and "m_jsonMapData g \<noteq> []"
    and "fromJson lib (insert_fields (m_jsonMapData g) (separatorSequence env) (m_data w)) =
           (jsonDoc, NoError)"
  shows "(\<exists>document.
            snd (processFrame lib g env (m_data w) (m_frame w) (m_time w)) =
              [jsonChanged (JFI_CreateNew (m_frame w) (m_time w) document)] \<and>
            datasets_as_spec (evaluate lib) (m_engine g) jsonDoc document) \<and>
         (\<exists>document.
            JSONWorker_process lib w g env =
              Some (JFI_CreateNew (m_frame w) (m_time w) document) \<and>
            datasets_as_spec (evaluate lib) (newEngine lib) jsonDoc document)"
proof
  show "\<exists>document.
           snd (processFrame lib g env (m_data w) (m_frame w) (m_time w)) =
             [jsonChanged (JFI_CreateNew (m_frame w) (m_time w) document)] \<and>
           datasets_as_spec (evaluate lib) (m_engine g) jsonDoc document"
    using assms evaluate_document_as_spec [of "evaluate lib" "m_engine g" jsonDoc]
    by (auto simp: processFrame_def Let_def split: prod.splits)
  show "\<exists>document.
           JSONWorker_process lib w g env =
             Some (JFI_CreateNew (m_frame w) (m_time w) document) \<and>
           datasets_as_spec (evaluate lib) (newEngine lib) jsonDoc document"
    using assms evaluate_document_as_spec [of "evaluate lib" "newEngine lib" jsonDoc]
    by (auto simp: JSONWorker_process_def Let_def split: prod.splits)
qed

text \<open>
  The map \<^verbatim>\<open>map.json\<close> and the frame \<^verbatim>\<open>21\<close>: the first dataset becomes \<^verbatim>\<open>42\<close>, the second,
  whose script has a syntax error, stays \<^verbatim>\<open>21 *\<close>, and the frame is sent.
\<close>

theorem C6_datasets_evaluated_and_frame_sent_witness:
  "snd (processFrame sample_qt manual_generator sample_env ''21'' 1 1000) =
     [jsonChanged \<lparr>frameNumber = 1, rxDateTime = 1000, jsonDocument =
        ObjectDocument [(''g'', JArray [JObject [(''d'',
          JArray [JObject [(''v'', JString ''42'')], JObject [(''v'', JString ''21 *'')]])]])]\<rparr>] \<and>
   (\<exists>document.
      snd (processFrame sample_qt manual_generator sample_env ''21'' 1 1000) =
        [jsonChanged (JFI_CreateNew 1 1000 document)] \<and>
      datasets_as_spec sample_evaluate 0 (fst (sample_fromJson doc_42)) document) \<and>
   (\<exists>document.
      JSONWorker_process sample_qt \<lparr>m_time = 1000, m_data = ''21'', m_frame = 1\<rparr>
        manual_generator sample_env = Some (JFI_CreateNew 1 1000 document) \<and>
      datasets_as_spec sample_evaluate 0 (fst (sample_fromJson doc_42)) document)"
proof -
  have 1: "m_opMode manual_generator \<noteq> kAutomatic"
    by code_simp
  have 2: "m_jsonMapData manual_generator \<noteq> []"
    by code_simp
  have 3: "fromJson sample_qt (insert_fields (m_jsonMapData manual_generator)
             (separatorSequence sample_env) (m_data \<lparr>m_time = 1000, m_data = ''21'', m_frame = 1\<rparr>)) =
           (fst (sample_fromJson doc_42), NoError)"
    by code_simp
  have 4: "m_engine manual_generator = 0"
    by code_simp
  have 5: "snd (processFrame sample_qt manual_generator sample_env ''21'' 1 1000) =
     [jsonChanged \<lparr>frameNumber = 1, rxDateTime = 1000, jsonDocument =
        ObjectDocument [(''g'', JArray [JObject [(''d'',
          JArray [JObject [(''v'', JString ''42'')], JObject [(''v'', JString ''21 *'')]])]])]\<rparr>]"
    by code_simp
  show ?thesis
    using C6_datasets_evaluated_and_frame_sent [OF 1 2 3] 4 5
    by (simp add: sample_qt_def)
qed

subsection \<open>The frame counter\<close>

text \<open>
  C7, as the code has it. The frame counter is a 64-bit unsigned number. Along events
  none of which runs \<^verbatim>\<open>reset\<close>, and as long as the counter does not pass \<open>2\<^sup>6\<^sup>4 - 1\<close>: the
  counter never decreases; it grows by exactly one for every frame that \<^verbatim>\<open>readData\<close> does
  not drop (the frames that do not parse and the frames of the manual mode without a map
  among them) and for every call of \<^verbatim>\<open>loadJSON\<close>, and is left alone by everything else.
  Every frame number that an event hands out, in the worker it creates or in the frame
  it sends, is the value of the counter right after that event; the numbers handed out
  grow strictly from one to the next, so that no number is handed out twice.
\<close>

theorem C7_counter_between_resets:
  assumes "quiet lib sys evs"
    and "unat (m_frameCount (generator sys)) + length (filter counts evs) < 2 ^ 64"
  shows "unat (m_frameCount (generator (fst (run lib sys evs)))) =
           unat (m_frameCount (generator sys)) + length (filter counts evs) \<and>
         m_frameCount (generator sys) \<le> m_frameCount (generator (fst (run lib sys evs))) \<and>
         (\<forall>k < length evs.
            \<forall>m \<in> set (handed_out lib (fst (run lib sys (take k evs))) (evs ! k)).
              m = m_frameCount (generator (fst (run lib sys (take (Suc k) evs))))) \<and>
         sorted_wrt (<) (map unat (numbers lib sys evs)) \<and>
         (\<forall>m \<in> set (numbers lib sys evs).
            unat (m_frameCount (generator sys)) < unat m \<and>
            unat m \<le> unat (m_frameCount (generator sys)) + length (filter counts evs)) \<and>
         distinct (numbers lib sys evs)"
proof -
  let ?c = "m_frameCount (generator sys)"
  let ?n = "length (filter counts evs)"
  from quiet_counter [OF assms(1)] assms(2)
  have 1: "unat (m_frameCount (generator (fst (run lib sys evs)))) = unat ?c + ?n"
    by (simp add: unat_counter_plus)
  then have 2: "?c \<le> m_frameCount (generator (fst (run lib sys evs)))"
    by (simp add: word_le_nat_alt)
  have 3: "\<forall>k < length evs.
            \<forall>m \<in> set (handed_out lib (fst (run lib sys (take k evs))) (evs ! k)).
              m = m_frameCount (generator (fst (run lib sys (take (Suc k) evs))))"
    using quiet_handed_out [OF assms(1)] by blast
  note 4 = quiet_numbers [OF assms]
  then have "distinct (map unat (numbers lib sys evs))"
    by (simp add: strict_sorted_iff)
  then have 5: "distinct (numbers lib sys evs)"
    by (simp add: distinct_map)
  from 1 2 3 4 5 show ?thesis by blast
qed

text \<open>
  A frame that is a JSON document, processed at once; an empty frame, which is dropped;
  in manual mode, where no map is loaded, a frame that is processed at once and sends
  nothing; a frame that does not parse, given to a worker. The counter is 3; the numbers
  1 and 3 are handed out, 2 went to the frame that sent nothing.
\<close>

theorem C7_counter_between_resets_witness:
  "numbers sample_qt sample_system
     [(sample_env, FrameReceived ''{}''), (sample_env, FrameReceived []),
      (sample_env, SetOperationMode kManual), (sample_env, FrameReceived ''1''),
      (sample_env, SetProcessFramesInSeparateThread True),
      (sample_env, FrameReceived ''{'')] = [1, 3] \<and>
   unat (m_frameCount (generator (fst (run sample_qt sample_system
     [(sample_env, FrameReceived ''{}''), (sample_env, FrameReceived []),
      (sample_env, SetOperationMode kManual), (sample_env, FrameReceived ''1''),
      (sample_env, SetProcessFramesInSeparateThread True),
      (sample_env, FrameReceived ''{'')])))) = 3"
proof -
  let ?evs = "[(sample_env, FrameReceived ''{}''), (sample_env, FrameReceived []),
      (sample_env, SetOperationMode kManual), (sample_env, FrameReceived ''1''),
      (sample_env, SetProcessFramesInSeparateThread True),
      (sample_env, FrameReceived ''{'')]"
  have q: "quiet sample_qt sample_system ?evs"
    by code_simp
  have c: "m_frameCount (generator sample_system) = 0"
    by code_simp
  have n: "length (filter counts ?evs) = 3"
    by (simp add: sample_env_def)
  have b: "unat (m_frameCount (generator sample_system)) + length (filter counts ?evs) < 2 ^ 64"
    by (simp only: c n) simp
  have "numbers sample_qt sample_system ?evs = [1, 3]"
    by code_simp
  with C7_counter_between_resets [OF q b] c n show ?thesis
    by simp
qed

text \<open>
  The claim as the spec words it fails where the counter wraps around: at \<open>2\<^sup>6\<^sup>4 - 1\<close> the
  next frame, with no reset, takes the counter to 0.
\<close>

theorem C7_counter_wraps_to_0:
  "\<not> calls_reset full_system (sample_env, FrameReceived ''{}'') \<and>
   m_frameCount (generator full_system) = 18446744073709551615 \<and>
   m_frameCount (generator (fst (step sample_qt full_system (sample_env, FrameReceived ''{}'')))) = 0"
  by code_simp



subsection \<open>Frames that are dropped, forwarded or discarded\<close>

text \<open>
  C9. While the CSV player is open (the replay source is active), a frame that arrives
  is dropped entirely: \<^verbatim>\<open>readData\<close> emits nothing, leaves the generator, and with it the
  frame counter, as it was, and creates no worker; the generator, the workers and the
  queue are after the frame what they were before.
\<close>

theorem C9_replay_active_drops_frame:
  assumes "csvOpen env"
  shows "readData lib g env data = (g, [], None) \<and>
         step lib sys (env, FrameReceived data) = (sys, [])"
  using assms by (simp add: readData_def)

theorem C9_replay_active_drops_frame_witness:
  "csvOpen (sample_env\<lparr>csvOpen := True\<rparr>) \<and>
   readData sample_qt sample_generator (sample_env\<lparr>csvOpen := True\<rparr>) ''{}'' =
     (sample_generator, [], None)"
  using C9_replay_active_drops_frame [where env = "sample_env\<lparr>csvOpen := True\<rparr>"
      and lib = sample_qt and g = sample_generator and data = "''{}''"]
  by simp

text \<open>
  C10, as the code has it. A frame that reaches \<^verbatim>\<open>loadJFI\<close>, as the \<^verbatim>\<open>jsonReady\<close> of a worker
  or from \<^verbatim>\<open>loadJSON\<close>, is forwarded (\<^verbatim>\<open>jsonChanged\<close>) exactly when the CSV player is open,
  the device is connected or the MQTT client is subscribed at that moment; otherwise the
  frame is discarded and the generator is reset: the frame counter becomes 0 and the empty
  frame is sent. A frame that \<^verbatim>\<open>processFrame\<close> builds in the caller's thread does not pass
  through \<^verbatim>\<open>loadJFI\<close>: whether it is sent does not depend on these three conditions.
\<close>

theorem C10_loadJFI_forwards_or_resets:
  assumes "k < length (ready sys)"
  shows "step lib sys (env, JsonReady k) =
           (if sources_active env
            then (sys\<lparr>ready := without k (ready sys)\<rparr>, [jsonChanged (ready sys ! k)])
            else (sys\<lparr>generator := (generator sys)\<lparr>m_frameCount := 0\<rparr>,
                      ready := without k (ready sys)\<rparr>,
                  [jsonChanged (JFI_Empty (currentDateTime env))])) \<and>
         loadJSON g env json =
           (if sources_active env
            then (g\<lparr>m_frameCount := m_frameCount g + 1\<rparr>,
                  [jsonChanged (JFI_CreateNew (m_frameCount g + 1) (currentDateTime env) json)])
            else (g\<lparr>m_frameCount := 0\<rparr>, [jsonChanged (JFI_Empty (currentDateTime env))])) \<and>
         processFrame lib g (env\<lparr>csvOpen := a, connected := b, mqtt := c\<rparr>) data n t =
           processFrame lib g env data n t"
  using assms processFrame_surroundings [where lib = lib and g = g and a = a and b = b and c = c
      and env = env and data = data and n = n and t = t]
  by (simp add: loadJFI_def loadJSON_def reset_def sources_active_def Let_def)

text \<open>
  A worker's frame waits in the queue when the device is disconnected: it is discarded,
  the empty frame is sent and the counter is 0.
\<close>

theorem C10_loadJFI_forwards_or_resets_witness:
  "ready one_ready =
     [\<lparr>frameNumber = 1, rxDateTime = 1000, jsonDocument = ObjectDocument []\<rparr>] \<and>
   m_frameCount (generator one_ready) = 1 \<and>
   snd (step sample_qt one_ready (idle_env, JsonReady 0)) = [jsonChanged (JFI_Empty 1000)] \<and>
   m_frameCount (generator (fst (step sample_qt one_ready (idle_env, JsonReady 0)))) = 0"
proof -
  have r: "ready one_ready =
     [\<lparr>frameNumber = 1, rxDateTime = 1000, jsonDocument = ObjectDocument []\<rparr>]"
    by code_simp
  have c: "m_frameCount (generator one_ready) = 1"
    by code_simp
  have i: "\<not> sources_active idle_env" and t: "currentDateTime idle_env = 1000"
    by code_simp+
  from r have "0 < length (ready one_ready)" by simp
  from C10_loadJFI_forwards_or_resets [OF this, of sample_qt idle_env] r c i t
  show ?thesis by simp
qed

text \<open>
  The claim as the spec words it fails for a frame processed in the caller's thread: no
  source of data is active, and the frame is sent.
\<close>

theorem C10_inline_frame_sent_without_source:
  "\<not> sources_active idle_env \<and>
   snd (step sample_qt sample_system (idle_env, FrameReceived ''{}'')) =
     [jsonChanged \<lparr>frameNumber = 1, rxDateTime = 1000, jsonDocument = ObjectDocument []\<rparr>]"
  by code_simp

end
